theory Spec2Isabelle
  imports Complex_Main
begin

section \<open>Chunked attention of \<^verbatim>\<open>flash_attention_jax/rabe_attention.py\<close>\<close>

text \<open>
  The module computes scaled dot-product attention, and a cosine-similarity variant, tile by
  tile. Everything is a pure function of dense arrays. The arrays hold floating-point numbers in
  the program; the model computes over the reals, so it describes the arithmetic the program
  approximates. Automatic differentiation (\<^verbatim>\<open>jax.checkpoint\<close>,
  \<^verbatim>\<open>stop_gradient\<close>) does not change the values of the forward pass
  and has no counterpart here.

  A two-dimensional array is the list of its rows. An exception raised by Python or by a JAX
  primitive is a value \<open>Inl e\<close>; a returned array is \<open>Inr a\<close>. Lengths and chunk sizes are
  natural numbers; a chunk size of zero raises.

  Line 10 of the module binds \<^verbatim>\<open>einsum\<close> to \<^verbatim>\<open>jnp.einsum\<close> at the highest
  precision. It writes \<^verbatim>\<open>partial\<close> where only \<^verbatim>\<open>functools\<close> is imported; the
  model takes the binding the line intends, \<^verbatim>\<open>functools.partial\<close>.
\<close>

subsection \<open>Arrays and errors\<close>

type_synonym vec = "real list"
type_synonym matrix = "real list list"

datatype error =
    ZeroDivisionError
  | ArangeError
  | SliceError
  | EinsumError
  | ReductionError
  | ReshapeError

text \<open>\<^verbatim>\<open>a.shape[-1]\<close>: the width of the rows. An array without rows does not record its width.\<close>

definition ncols :: "matrix \<Rightarrow> nat" where
  "ncols m = (case m of [] \<Rightarrow> 0 | r # _ \<Rightarrow> length r)"

text \<open>An array of shape \<open>(n, d)\<close>.\<close>

definition has_shape :: "nat \<Rightarrow> nat \<Rightarrow> matrix \<Rightarrow> bool" where
  "has_shape n d m = (length m = n \<and> list_all (\<lambda>r. length r = d) m)"

subsection \<open>The primitives of \<^verbatim>\<open>jax.lax\<close> and \<^verbatim>\<open>jax.numpy\<close> the module calls\<close>

text \<open>
  \<^verbatim>\<open>lax.dynamic_slice(x, (i, j), slice_sizes=(h, w))\<close>: the slice sizes must fit
  the operand, and the start indices are clamped so that the slice lies inside it.
\<close>

definition dynamic_slice :: "matrix \<Rightarrow> nat \<times> nat \<Rightarrow> nat \<times> nat \<Rightarrow> error + matrix" where
  "dynamic_slice x start slice_sizes =
     (case start of (i, j) \<Rightarrow> case slice_sizes of (h, w) \<Rightarrow>
        if length x < h \<or> ncols x < w then Inl SliceError
        else Inr (map (\<lambda>r. take w (drop (min j (ncols x - w)) r))
                      (take h (drop (min i (length x - h)) x))))"

text \<open>\<^verbatim>\<open>jnp.arange(0, stop, step)\<close>: the starts \<open>0, step, 2 * step, ...\<close> below \<open>stop\<close>.\<close>

definition arange :: "nat \<Rightarrow> nat \<Rightarrow> error + nat list" where
  "arange stop step =
     (if step = 0 then Inl ArangeError
      else Inr (map (\<lambda>j. j * step) [0..<(stop + step - 1) div step]))"

text \<open>\<^verbatim>\<open>math.ceil(a / b)\<close> on lengths.\<close>

definition ceil_div :: "nat \<Rightarrow> nat \<Rightarrow> error + nat" where
  "ceil_div a b = (if b = 0 then Inl ZeroDivisionError else Inr ((a + b - 1) div b))"

definition dot :: "vec \<Rightarrow> vec \<Rightarrow> real" where
  "dot x y = sum_list (map2 (*) x y)"

text \<open>
  \<^verbatim>\<open>einsum('qd, kd -> qk', q, k)\<close>. The two widths must agree, except that an axis
  of size one is broadcast along the other operand's axis. An operand without rows has no
  recorded width and passes the check.
\<close>

definition einsum_qd_kd :: "matrix \<Rightarrow> matrix \<Rightarrow> error + matrix" where
  "einsum_qd_kd q k =
     (if q = [] \<or> k = [] \<or> ncols q = ncols k
        then Inr (map (\<lambda>qr. map (\<lambda>kr. dot qr kr) k) q)
      else if ncols q = 1
        then Inr (map (\<lambda>qr. map (\<lambda>kr. qr ! 0 * sum_list kr) k) q)
      else if ncols k = 1
        then Inr (map (\<lambda>qr. map (\<lambda>kr. sum_list qr * kr ! 0) k) q)
      else Inl EinsumError)"

text \<open>
  \<^verbatim>\<open>einsum('vf, qv -> qf', v, w)\<close>: the rows of \<open>v\<close> are contracted with the
  columns of \<open>w\<close>.
\<close>

definition einsum_vf_qv :: "matrix \<Rightarrow> matrix \<Rightarrow> error + matrix" where
  "einsum_vf_qv v w =
     (if w = [] \<or> ncols w = length v
        then Inr (map (\<lambda>wr. map (\<lambda>f. dot wr (map (\<lambda>vr. vr ! f) v)) [0..<ncols v]) w)
      else if length v = 1
        then Inr (map (\<lambda>wr. map (\<lambda>f. sum_list wr * v ! 0 ! f) [0..<ncols v]) w)
      else if ncols w = 1
        then Inr (map (\<lambda>wr. map (\<lambda>f. wr ! 0 * sum_list (map (\<lambda>vr. vr ! f) v)) [0..<ncols v]) w)
      else Inl EinsumError)"

text \<open>\<^verbatim>\<open>jnp.max\<close> along an axis: an axis of size zero has no maximum.\<close>

definition maximum :: "real list \<Rightarrow> real" where
  "maximum xs = fold max (tl xs) (hd xs)"

definition row_max :: "matrix \<Rightarrow> error + vec" where
  "row_max m = (if list_ex (\<lambda>r. r = []) m then Inl ReductionError else Inr (map maximum m))"

text \<open>
  \<^verbatim>\<open>jax.lax.map(f, xs)\<close>: \<open>f\<close> on every element, the results stacked. The module
  maps over the tile starts only, of which there is at least one whenever the step is positive,
  so that the function is never traced without being run.
\<close>

fun lax_map :: "('a \<Rightarrow> error + 'b) \<Rightarrow> 'a list \<Rightarrow> error + 'b list" where
  "lax_map f [] = Inr []"
| "lax_map f (x # xs) =
     (case f x of
        Inl e \<Rightarrow> Inl e
      | Inr y \<Rightarrow> (case lax_map f xs of Inl e \<Rightarrow> Inl e | Inr ys \<Rightarrow> Inr (y # ys)))"

text \<open>
  The steps of \<^verbatim>\<open>jax.lax.scan(f, init, xs=None, length=n)\<close>: \<open>n\<close> of them, each
  taking the carry and returning the next carry and one output; the outputs are stacked.
\<close>

fun scan_steps :: "('c \<Rightarrow> error + 'c \<times> 'b) \<Rightarrow> 'c \<Rightarrow> nat \<Rightarrow> error + 'b list" where
  "scan_steps f carry 0 = Inr []"
| "scan_steps f carry (Suc n) =
     (case f carry of
        Inl e \<Rightarrow> Inl e
      | Inr (carry', y) \<Rightarrow>
         (case scan_steps f carry' n of Inl e \<Rightarrow> Inl e | Inr ys \<Rightarrow> Inr (y # ys)))"

text \<open>
  \<^verbatim>\<open>jax.lax.scan\<close> traces the body once before it runs the steps, also when the
  length is 0, and an error that the body raises while it is traced is raised by the scan. The
  errors of this module depend on the shapes alone, which are the same at every step: tracing
  is the body at the initial carry with its result dropped.
\<close>

definition scan :: "('c \<Rightarrow> error + 'c \<times> 'b) \<Rightarrow> 'c \<Rightarrow> nat \<Rightarrow> error + 'b list" where
  "scan f init n = (case f init of Inl e \<Rightarrow> Inl e | Inr traced \<Rightarrow> scan_steps f init n)"

text \<open>
  \<^verbatim>\<open>res.reshape(r, c)\<close> of a stack of matrices: the elements in row-major order are
  regrouped into \<open>r\<close> rows of \<open>c\<close>; the number of elements must be \<open>r * c\<close>.
\<close>

definition reshape :: "matrix list \<Rightarrow> nat \<Rightarrow> nat \<Rightarrow> error + matrix" where
  "reshape res r c =
     (let flat = concat (concat res) in
      if length flat = r * c
        then Inr (map (\<lambda>i. take c (drop (i * c) flat)) [0..<r])
      else Inl ReshapeError)"

subsection \<open>Pipeline A: \<^verbatim>\<open>_query_chunk_attention\<close> and \<^verbatim>\<open>rabe_attention\<close>\<close>

text \<open>
  \<^verbatim>\<open>summarize_chunk\<close> (lines 22 to 28): scores of one key tile, their row maxima,
  the exponentials of the shifted scores, and the value and weight sums of the tile.
\<close>

definition summarize_chunk :: "matrix \<Rightarrow> matrix \<Rightarrow> matrix \<Rightarrow> error + matrix \<times> vec \<times> vec" where
  "summarize_chunk q k v =
     (case einsum_qd_kd q k of
        Inl e \<Rightarrow> Inl e
      | Inr attn_weights \<Rightarrow>
         (case row_max attn_weights of
            Inl e \<Rightarrow> Inl e
          | Inr max_score \<Rightarrow>
             (let exp_weights = map2 (\<lambda>r m. map (\<lambda>s. exp (s - m)) r) attn_weights max_score in
              case einsum_vf_qv v exp_weights of
                Inl e \<Rightarrow> Inl e
              | Inr exp_values \<Rightarrow> Inr (exp_values, map sum_list exp_weights, max_score))))"

text \<open>The inner \<^verbatim>\<open>chunk_scanner\<close> (lines 30 to 33).\<close>

definition chunk_scanner ::
  "matrix \<Rightarrow> matrix \<Rightarrow> matrix \<Rightarrow> nat \<Rightarrow> nat \<Rightarrow> nat \<Rightarrow> nat \<Rightarrow> error + matrix \<times> vec \<times> vec" where
  "chunk_scanner q k v k_chunk_size dim' v_dim chunk_idx =
     (case dynamic_slice k (chunk_idx, 0) (k_chunk_size, dim') of
        Inl e \<Rightarrow> Inl e
      | Inr k_chunk \<Rightarrow>
         (case dynamic_slice v (chunk_idx, 0) (k_chunk_size, v_dim) of
            Inl e \<Rightarrow> Inl e
          | Inr v_chunk \<Rightarrow> summarize_chunk q k_chunk v_chunk))"

text \<open>
  Lines 36 to 42: the tiles' sums are rescaled to the global maximum of each query row and
  added up. The result is \<^verbatim>\<open>(all_values, all_weights)\<close>, numerator and denominator
  of the final division.
\<close>

definition combine_chunks ::
  "nat \<Rightarrow> nat \<Rightarrow> (matrix \<times> vec \<times> vec) list \<Rightarrow> error + matrix \<times> vec" where
  "combine_chunks q_len v_dim chunks =
     (let chunk_values = map fst chunks;
          chunk_weights = map (\<lambda>c. fst (snd c)) chunks;
          chunk_max = map (\<lambda>c. snd (snd c)) chunks
      in if chunks = [] then Inl ReductionError
         else
           (let global_max = map (\<lambda>i. maximum (map (\<lambda>cm. cm ! i) chunk_max)) [0..<q_len];
                max_diffs = map (\<lambda>cm. map2 (\<lambda>m g. exp (m - g)) cm global_max) chunk_max;
                chunk_values' =
                  map2 (\<lambda>cv md. map2 (\<lambda>row d. map (\<lambda>x. x * d) row) cv md) chunk_values max_diffs;
                chunk_weights' = map2 (map2 (*)) chunk_weights max_diffs;
                all_values =
                  map (\<lambda>i. map (\<lambda>f. sum_list (map (\<lambda>cv. cv ! i ! f) chunk_values')) [0..<v_dim])
                      [0..<q_len];
                all_weights = map (\<lambda>i. sum_list (map (\<lambda>cw. cw ! i) chunk_weights')) [0..<q_len]
            in Inr (all_values, all_weights)))"

text \<open>The broadcast division \<^verbatim>\<open>all_values / all_weights\<close> (line 43).\<close>

definition divide_rows :: "matrix \<Rightarrow> vec \<Rightarrow> matrix" where
  "divide_rows all_values all_weights = map2 (\<lambda>row w. map (\<lambda>x. x / w) row) all_values all_weights"

text \<open>
  \<^verbatim>\<open>_query_chunk_attention\<close> up to line 42: the sums over all key tiles for one
  query tile.
\<close>

definition query_chunk_sums :: "matrix \<Rightarrow> matrix \<Rightarrow> matrix \<Rightarrow> nat \<Rightarrow> error + matrix \<times> vec" where
  "query_chunk_sums q k v k_chunk_size =
     (let q_len = length q; k_len = length k; dim' = ncols k; v_dim = ncols v;
          k_chunk_size' = min k_chunk_size k_len;
          q' = map (map (\<lambda>x. x / sqrt (real dim'))) q
      in case arange k_len k_chunk_size' of
           Inl e \<Rightarrow> Inl e
         | Inr xs \<Rightarrow>
            (case lax_map (chunk_scanner q' k v k_chunk_size' dim' v_dim) xs of
               Inl e \<Rightarrow> Inl e
             | Inr chunks \<Rightarrow> combine_chunks q_len v_dim chunks))"

definition query_chunk_attention :: "matrix \<Rightarrow> matrix \<Rightarrow> matrix \<Rightarrow> nat \<Rightarrow> error + matrix" where
  "query_chunk_attention q k v k_chunk_size =
     (case query_chunk_sums q k v k_chunk_size of
        Inl e \<Rightarrow> Inl e
      | Inr (all_values, all_weights) \<Rightarrow> Inr (divide_rows all_values all_weights))"

text \<open>The outer \<^verbatim>\<open>chunk_scanner\<close> of \<^verbatim>\<open>rabe_attention\<close> (lines 48 to 50).\<close>

definition q_chunk_scanner ::
  "matrix \<Rightarrow> matrix \<Rightarrow> matrix \<Rightarrow> nat \<Rightarrow> nat \<Rightarrow> nat \<Rightarrow> error + nat \<times> matrix" where
  "q_chunk_scanner q k v q_chunk_size k_chunk_size chunk_idx =
     (case dynamic_slice q (chunk_idx, 0) (min q_chunk_size (length q), ncols q) of
        Inl e \<Rightarrow> Inl e
      | Inr q_chunk \<Rightarrow>
         (case query_chunk_attention q_chunk k v k_chunk_size of
            Inl e \<Rightarrow> Inl e
          | Inr out \<Rightarrow> Inr (chunk_idx + q_chunk_size, out)))"

definition rabe_attention :: "matrix \<Rightarrow> matrix \<Rightarrow> matrix \<Rightarrow> nat \<Rightarrow> nat \<Rightarrow> error + matrix" where
  "rabe_attention q k v q_chunk_size k_chunk_size =
     (let q_len = length q; v_dim = ncols v
      in case ceil_div q_len q_chunk_size of
           Inl e \<Rightarrow> Inl e
         | Inr n \<Rightarrow>
            (case scan (q_chunk_scanner q k v q_chunk_size k_chunk_size) 0 n of
               Inl e \<Rightarrow> Inl e
             | Inr res \<Rightarrow> reshape res q_len v_dim))"

subsection \<open>Pipeline B: \<^verbatim>\<open>rabe_cosine_sim_attention\<close>\<close>

text \<open>
  \<^verbatim>\<open>l2norm\<close> (lines 58 to 60). \<^verbatim>\<open>jnp.linalg.norm(t)\<close> without an axis is
  the norm of the whole array: the square root of the sum of the squares of all its elements.
\<close>

definition l2norm :: "matrix \<Rightarrow> real \<Rightarrow> matrix" where
  "l2norm t eps =
     (let norm = sqrt (sum_list (map (\<lambda>r. sum_list (map (\<lambda>x. x\<^sup>2) r)) t))
      in map (map (\<lambda>x. x / (norm + eps))) t)"

text \<open>The default \<^verbatim>\<open>eps = 1e-6\<close> of \<^verbatim>\<open>l2norm\<close>.\<close>

definition l2norm_eps :: real where
  "l2norm_eps = 1 / 10 ^ 6"

text \<open>\<^verbatim>\<open>summarize_chunk\<close> of the cosine-similarity reducer (lines 68 to 72).\<close>

definition cos_summarize_chunk ::
  "real \<Rightarrow> matrix \<Rightarrow> matrix \<Rightarrow> matrix \<Rightarrow> error + matrix \<times> vec" where
  "cos_summarize_chunk scale q k v =
     (case einsum_qd_kd q k of
        Inl e \<Rightarrow> Inl e
      | Inr qk \<Rightarrow>
         (let attn_weights = map (map (\<lambda>s. s * scale)) qk;
              exp_weights = map (map exp) attn_weights
          in case einsum_vf_qv v attn_weights of
               Inl e \<Rightarrow> Inl e
             | Inr exp_values \<Rightarrow> Inr (exp_values, map sum_list exp_weights)))"

definition cos_chunk_scanner ::
  "real \<Rightarrow> matrix \<Rightarrow> matrix \<Rightarrow> matrix \<Rightarrow> nat \<Rightarrow> nat \<Rightarrow> nat \<Rightarrow> nat \<Rightarrow> error + matrix \<times> vec" where
  "cos_chunk_scanner scale q k v k_chunk_size dim' v_dim chunk_idx =
     (case dynamic_slice k (chunk_idx, 0) (k_chunk_size, dim') of
        Inl e \<Rightarrow> Inl e
      | Inr k_chunk \<Rightarrow>
         (case dynamic_slice v (chunk_idx, 0) (k_chunk_size, v_dim) of
            Inl e \<Rightarrow> Inl e
          | Inr v_chunk \<Rightarrow> cos_summarize_chunk scale q k_chunk v_chunk))"

text \<open>Lines 81 and 82: the sums over the tiles, without rescaling.\<close>

definition cos_combine_chunks :: "nat \<Rightarrow> nat \<Rightarrow> (matrix \<times> vec) list \<Rightarrow> matrix \<times> vec" where
  "cos_combine_chunks q_len v_dim chunks =
     (let chunk_values = map fst chunks;
          chunk_weights = map snd chunks;
          all_values =
            map (\<lambda>i. map (\<lambda>f. sum_list (map (\<lambda>cv. cv ! i ! f) chunk_values)) [0..<v_dim])
                [0..<q_len];
          all_weights = map (\<lambda>i. sum_list (map (\<lambda>cw. cw ! i) chunk_weights)) [0..<q_len]
      in (all_values, all_weights))"

definition cos_query_chunk_sums ::
  "matrix \<Rightarrow> matrix \<Rightarrow> matrix \<Rightarrow> nat \<Rightarrow> real \<Rightarrow> error + matrix \<times> vec" where
  "cos_query_chunk_sums q k v k_chunk_size scale =
     (let q_len = length q; k_len = length k; dim' = ncols k; v_dim = ncols v;
          k_chunk_size' = min k_chunk_size k_len
      in case arange k_len k_chunk_size' of
           Inl e \<Rightarrow> Inl e
         | Inr xs \<Rightarrow>
            (case lax_map (cos_chunk_scanner scale q k v k_chunk_size' dim' v_dim) xs of
               Inl e \<Rightarrow> Inl e
             | Inr chunks \<Rightarrow> Inr (cos_combine_chunks q_len v_dim chunks)))"

definition query_chunk_cosine_sim_attention ::
  "matrix \<Rightarrow> matrix \<Rightarrow> matrix \<Rightarrow> nat \<Rightarrow> real \<Rightarrow> error + matrix" where
  "query_chunk_cosine_sim_attention q k v k_chunk_size scale =
     (case cos_query_chunk_sums q k v k_chunk_size scale of
        Inl e \<Rightarrow> Inl e
      | Inr (all_values, all_weights) \<Rightarrow> Inr (divide_rows all_values all_weights))"

definition cos_q_chunk_scanner ::
  "matrix \<Rightarrow> matrix \<Rightarrow> matrix \<Rightarrow> nat \<Rightarrow> nat \<Rightarrow> real \<Rightarrow> nat \<Rightarrow> error + nat \<times> matrix" where
  "cos_q_chunk_scanner q k v q_chunk_size k_chunk_size scale chunk_idx =
     (case dynamic_slice q (chunk_idx, 0) (min q_chunk_size (length q), ncols q) of
        Inl e \<Rightarrow> Inl e
      | Inr q_chunk \<Rightarrow>
         (case query_chunk_cosine_sim_attention q_chunk k v k_chunk_size scale of
            Inl e \<Rightarrow> Inl e
          | Inr out \<Rightarrow> Inr (chunk_idx + q_chunk_size, out)))"

text \<open>
  \<^verbatim>\<open>rabe_cosine_sim_attention\<close> (lines 85 to 95). The shape is read from the
  arguments before they are normalised; \<^verbatim>\<open>map(l2norm, (q, k))\<close> calls
  \<^verbatim>\<open>l2norm\<close> with its default \<^verbatim>\<open>eps\<close>.
\<close>

definition rabe_cosine_sim_attention ::
  "matrix \<Rightarrow> matrix \<Rightarrow> matrix \<Rightarrow> nat \<Rightarrow> nat \<Rightarrow> real \<Rightarrow> real \<Rightarrow> error + matrix" where
  "rabe_cosine_sim_attention q k v q_chunk_size k_chunk_size scale eps =
     (let q_len = length q; v_dim = ncols v;
          q' = l2norm q l2norm_eps;
          k' = l2norm k l2norm_eps
      in case ceil_div q_len q_chunk_size of
           Inl e \<Rightarrow> Inl e
         | Inr n \<Rightarrow>
            (case scan (cos_q_chunk_scanner q' k' v q_chunk_size k_chunk_size scale) 0 n of
               Inl e \<Rightarrow> Inl e
             | Inr res \<Rightarrow> reshape res q_len v_dim))"

subsection \<open>The direct computations the specification compares with\<close>

text \<open>
  These follow the specification's words, not the code: the softmax of a score row, the
  product of two matrices, and attention computed on the full score matrix.
\<close>

definition softmax :: "vec \<Rightarrow> vec" where
  "softmax xs = map (\<lambda>x. exp x / sum_list (map exp xs)) xs"

definition vecmat :: "vec \<Rightarrow> matrix \<Rightarrow> vec" where
  "vecmat x b = map (\<lambda>j. dot x (map (\<lambda>br. br ! j) b)) [0..<ncols b]"

definition matmul :: "matrix \<Rightarrow> matrix \<Rightarrow> matrix" where
  "matmul a b = map (\<lambda>ar. vecmat ar b) a"

text \<open>\<open>softmax (c * Q K\<^sup>T) V\<close>.\<close>

definition softmax_attention :: "real \<Rightarrow> matrix \<Rightarrow> matrix \<Rightarrow> matrix \<Rightarrow> matrix" where
  "softmax_attention c q k v = matmul (map (\<lambda>qr. softmax (map (\<lambda>kr. c * dot qr kr) k)) q) v"

text \<open>Row-wise normalisation as the specification words it: \<open>row / (||row|| + eps)\<close>.\<close>

definition row_l2norm :: "real \<Rightarrow> matrix \<Rightarrow> matrix" where
  "row_l2norm eps m = map (\<lambda>r. map (\<lambda>x. x / (sqrt (sum_list (map (\<lambda>y. y\<^sup>2) r)) + eps)) r) m"

text \<open>
  What the cosine-similarity pipeline computes when nothing is tiled: with the scores
  \<open>S = scale * Q K\<^sup>T\<close>, the rows of \<open>S V\<close> divided by the row sums of \<open>exp S\<close>.
\<close>

definition unchunked_cosine_sim :: "real \<Rightarrow> matrix \<Rightarrow> matrix \<Rightarrow> matrix \<Rightarrow> matrix" where
  "unchunked_cosine_sim scale q k v =
     (let s = map (\<lambda>qr. map (\<lambda>kr. scale * dot qr kr) k) q
      in divide_rows (matmul s v) (map (\<lambda>sr. sum_list (map exp sr)) s))"

subsection \<open>Notions used in the proofs\<close>

text \<open>
  The rows that the inner \<^verbatim>\<open>chunk_scanner\<close> slices for the \<open>t\<close>-th start
  \<open>t * c\<close>: \<open>c\<close> rows from the clamped start.
\<close>

definition key_tile :: "nat \<Rightarrow> 'a list \<Rightarrow> nat \<Rightarrow> 'a list" where
  "key_tile c x t = take c (drop (min (t * c) (length x - c)) x)"

text \<open>The maximal score of a query row on a tile, and its shifted exponentials.\<close>

definition tile_max :: "vec \<Rightarrow> matrix \<Rightarrow> real" where
  "tile_max qr K = maximum (map (dot qr) K)"

definition tile_exp :: "vec \<Rightarrow> matrix \<Rightarrow> vec" where
  "tile_exp qr K = map (\<lambda>s. exp (s - tile_max qr K)) (map (dot qr) K)"

section \<open>Lists, shapes and the primitives\<close>

lemma map2_same: "map2 h (map a xs) (map b xs) = map (\<lambda>x. h (a x) (b x)) xs"
  by (induction xs) simp_all

lemma has_shape_ncols: "has_shape n d m \<Longrightarrow> 0 < n \<Longrightarrow> ncols m = d"
  by (cases m) (simp_all add: has_shape_def ncols_def)

lemma has_shape_rows: "has_shape n d m \<Longrightarrow> list_all (\<lambda>r. length r = ncols m) m"
  by (cases m) (simp_all add: has_shape_def ncols_def)

lemma has_shape_take_drop: "has_shape n d m \<Longrightarrow> i + c \<le> n \<Longrightarrow> has_shape c d (take c (drop i m))"
  by (auto simp: has_shape_def list_all_iff dest!: in_set_takeD in_set_dropD)

lemma full_width_rows:
  "list_all (\<lambda>r. length r = w) ys \<Longrightarrow> map (take w) ys = ys"
  by (induction ys) simp_all

lemma dynamic_slice_rows:
  assumes "list_all (\<lambda>r. length r = ncols x) x" and "h \<le> length x"
  shows "dynamic_slice x (i, 0) (h, ncols x) = Inr (take h (drop (min i (length x - h)) x))"
proof -
  have "list_all (\<lambda>r. length r = ncols x) (take h (drop (min i (length x - h)) x))"
    using assms(1) by (auto simp: list_all_iff dest!: in_set_takeD in_set_dropD)
  then show ?thesis
    using assms(2) by (simp add: dynamic_slice_def full_width_rows)
qed

lemma concat_tiles:
  "length xs = m * c \<Longrightarrow> concat (map (\<lambda>j. take c (drop (j * c) xs)) [0..<m]) = xs"
proof (induction m arbitrary: xs)
  case 0
  then show ?case by simp
next
  case (Suc m)
  have "[0..<Suc m] = 0 # map Suc [0..<m]"
    by (simp add: upt_conv_Cons map_Suc_upt del: upt_Suc)
  then have "concat (map (\<lambda>j. take c (drop (j * c) xs)) [0..<Suc m]) =
      take c xs @ concat (map (\<lambda>j. take c (drop (j * c) (drop c xs))) [0..<m])"
    by (simp add: comp_def add.commute del: upt_Suc)
  also have "concat (map (\<lambda>j. take c (drop (j * c) (drop c xs))) [0..<m]) = drop c xs"
    using Suc.prems by (intro Suc.IH) simp
  finally show ?case by simp
qed

lemma lax_map_Inr:
  "(\<And>x. x \<in> set xs \<Longrightarrow> f x = Inr (g x)) \<Longrightarrow> lax_map f xs = Inr (map g xs)"
  by (induction xs) simp_all

lemma scan_steps_Inr:
  "(\<And>j. j < n \<Longrightarrow> f (c0 + j * step) = Inr (c0 + j * step + step, g (c0 + j * step))) \<Longrightarrow>
   scan_steps f c0 n = Inr (map (\<lambda>j. g (c0 + j * step)) [0..<n])"
proof (induction n arbitrary: c0)
  case 0
  then show ?case by simp
next
  case (Suc n)
  have first: "f c0 = Inr (c0 + step, g c0)"
    using Suc.prems [of 0] by simp
  have "scan_steps f (c0 + step) n = Inr (map (\<lambda>j. g (c0 + step + j * step)) [0..<n])"
  proof (rule Suc.IH)
    fix j assume "j < n"
    then show "f (c0 + step + j * step) = Inr (c0 + step + j * step + step, g (c0 + step + j * step))"
      using Suc.prems [of "Suc j"] by (simp add: add.assoc add.left_commute add.commute)
  qed
  moreover have "[0..<Suc n] = 0 # map Suc [0..<n]"
    by (simp add: upt_conv_Cons map_Suc_upt del: upt_Suc)
  ultimately show ?case
    using first by (simp add: comp_def add.assoc add.left_commute add.commute del: upt_Suc)
qed

lemma scan_Inr:
  assumes "\<And>j. j < n \<Longrightarrow> f (c0 + j * step) = Inr (c0 + j * step + step, g (c0 + j * step))"
    and "f c0 = Inr traced"
  shows "scan f c0 n = Inr (map (\<lambda>j. g (c0 + j * step)) [0..<n])"
  using scan_steps_Inr [of n f c0 step g, OF assms(1)] assms(2) by (simp add: scan_def)

lemma regroup_rows:
  "list_all (\<lambda>r. length r = c) rows \<Longrightarrow>
   map (\<lambda>i. take c (drop (i * c) (concat rows))) [0..<length rows] = rows"
proof (induction rows)
  case Nil
  then show ?case by simp
next
  case (Cons r rows)
  have "[0..<Suc (length rows)] = 0 # map Suc [0..<length rows]"
    by (simp add: upt_conv_Cons map_Suc_upt del: upt_Suc)
  then show ?case
    using Cons by (simp add: comp_def del: upt_Suc)
qed

lemma length_concat_rows:
  "list_all (\<lambda>r. length r = c) rows \<Longrightarrow> length (concat rows) = length rows * c"
  by (induction rows) simp_all

lemma reshape_concat:
  assumes "list_all (\<lambda>r. length r = c) (concat res)" and "length (concat res) = r"
  shows "reshape res r c = Inr (concat res)"
  using assms regroup_rows [OF assms(1)] length_concat_rows [OF assms(1)]
  by (simp add: reshape_def)

subsection \<open>One key tile\<close>

lemma map_index: "(\<And>i. i < length q \<Longrightarrow> g i = h (q ! i)) \<Longrightarrow> map g [0..<length q] = map h q"
  by (auto intro!: nth_equalityI)

lemma einsum_qd_kd_shape:
  assumes "has_shape tq d q" and "has_shape c d K"
  shows "einsum_qd_kd q K = Inr (map (\<lambda>qr. map (dot qr) K) q)"
proof (cases "q = [] \<or> K = []")
  case True
  then show ?thesis by (auto simp: einsum_qd_kd_def)
next
  case False
  then have "ncols q = d" "ncols K = d"
    using assms has_shape_ncols [of tq d q] has_shape_ncols [of c d K]
    by (auto simp: has_shape_def)
  then show ?thesis by (simp add: einsum_qd_kd_def)
qed

lemma einsum_vf_qv_shape:
  assumes "list_all (\<lambda>r. length r = length v) w"
  shows "einsum_vf_qv v w = Inr (map (\<lambda>wr. map (\<lambda>f. dot wr (map (\<lambda>vr. vr ! f) v)) [0..<ncols v]) w)"
proof (cases w)
  case Nil
  then show ?thesis by (simp add: einsum_vf_qv_def)
next
  case (Cons a w')
  then have "ncols w = length v" using assms by (simp add: ncols_def)
  then show ?thesis by (simp add: einsum_vf_qv_def)
qed

lemma row_max_nonempty:
  "list_all (\<lambda>r. r \<noteq> []) m \<Longrightarrow> row_max m = Inr (map maximum m)"
  by (simp add: row_max_def list_all_iff list_ex_iff)

lemma summarize_chunk_eq:
  assumes "has_shape tq d q" and "has_shape c d K" and "length V = c" and "0 < c"
  shows "summarize_chunk q K V =
     Inr (map (\<lambda>qr. map (\<lambda>f. dot (map (\<lambda>s. exp (s - maximum (map (dot qr) K))) (map (dot qr) K))
                                (map (\<lambda>vr. vr ! f) V)) [0..<ncols V]) q,
          map (\<lambda>qr. sum_list (map (\<lambda>s. exp (s - maximum (map (dot qr) K))) (map (dot qr) K))) q,
          map (\<lambda>qr. maximum (map (dot qr) K)) q)"
proof -
  have K: "K \<noteq> []" "length K = c" using assms by (auto simp: has_shape_def)
  have 1: "einsum_qd_kd q K = Inr (map (\<lambda>qr. map (dot qr) K) q)"
    using assms(1,2) by (rule einsum_qd_kd_shape)
  have 2: "row_max (map (\<lambda>qr. map (dot qr) K) q) = Inr (map (\<lambda>qr. maximum (map (dot qr) K)) q)"
    using K by (simp add: row_max_nonempty list_all_iff comp_def)
  have 3: "map2 (\<lambda>r m. map (\<lambda>s. exp (s - m)) r) (map (\<lambda>qr. map (dot qr) K) q)
              (map (\<lambda>qr. maximum (map (dot qr) K)) q) =
           map (\<lambda>qr. map (\<lambda>s. exp (s - maximum (map (dot qr) K))) (map (dot qr) K)) q"
    by (rule map2_same)
  have 4: "list_all (\<lambda>r. length r = length V)
     (map (\<lambda>qr. map (\<lambda>s. exp (s - maximum (map (dot qr) K))) (map (dot qr) K)) q)"
    using K assms(3) by (simp add: list_all_iff)
  show ?thesis
    unfolding summarize_chunk_def 1 sum.case 2 Let_def 3 einsum_vf_qv_shape [OF 4]
    by (simp add: comp_def)
qed

subsection \<open>Combining the tiles\<close>

lemma combine_chunks_rows:
  assumes ts: "ts \<noteq> []"
    and len: "\<And>t qr. t \<in> set ts \<Longrightarrow> qr \<in> set q \<Longrightarrow> length (VR t qr) = f"
  shows "combine_chunks (length q) f (map (\<lambda>t. (map (VR t) q, map (WS t) q, map (MX t) q)) ts) =
     Inr (map (\<lambda>qr. map (\<lambda>j. \<Sum>t\<leftarrow>ts. VR t qr ! j * exp (MX t qr - maximum (map (\<lambda>t. MX t qr) ts)))
                       [0..<f]) q,
          map (\<lambda>qr. \<Sum>t\<leftarrow>ts. WS t qr * exp (MX t qr - maximum (map (\<lambda>t. MX t qr) ts))) q)"
proof -
  define GM where "GM qr = maximum (map (\<lambda>t. MX t qr) ts)" for qr
  let ?chunks = "map (\<lambda>t. (map (VR t) q, map (WS t) q, map (MX t) q)) ts"
  have cv: "map fst ?chunks = map (\<lambda>t. map (VR t) q) ts"
    and cw: "map (\<lambda>c. fst (snd c)) ?chunks = map (\<lambda>t. map (WS t) q) ts"
    and cm: "map (\<lambda>c. snd (snd c)) ?chunks = map (\<lambda>t. map (MX t) q) ts"
    by (simp_all add: comp_def)
  have gm: "map (\<lambda>i. maximum (map (\<lambda>cm. cm ! i) (map (\<lambda>t. map (MX t) q) ts))) [0..<length q] =
      map GM q"
    by (rule map_index) (simp add: GM_def comp_def)
  have md: "map (\<lambda>cm. map2 (\<lambda>m g. exp (m - g)) cm (map GM q)) (map (\<lambda>t. map (MX t) q) ts) =
      map (\<lambda>t. map (\<lambda>qr. exp (MX t qr - GM qr)) q) ts"
    by (simp add: comp_def map2_same)
  have cv': "map2 (\<lambda>cv md. map2 (\<lambda>row d. map (\<lambda>x. x * d) row) cv md) (map (\<lambda>t. map (VR t) q) ts)
        (map (\<lambda>t. map (\<lambda>qr. exp (MX t qr - GM qr)) q) ts) =
      map (\<lambda>t. map (\<lambda>qr. map (\<lambda>x. x * exp (MX t qr - GM qr)) (VR t qr)) q) ts"
    by (simp add: map2_same)
  have cw': "map2 (map2 (*)) (map (\<lambda>t. map (WS t) q) ts)
        (map (\<lambda>t. map (\<lambda>qr. exp (MX t qr - GM qr)) q) ts) =
      map (\<lambda>t. map (\<lambda>qr. WS t qr * exp (MX t qr - GM qr)) q) ts"
    by (simp add: map2_same)
  have av: "map (\<lambda>i. map (\<lambda>j. sum_list (map (\<lambda>cv. cv ! i ! j)
          (map (\<lambda>t. map (\<lambda>qr. map (\<lambda>x. x * exp (MX t qr - GM qr)) (VR t qr)) q) ts))) [0..<f])
        [0..<length q] =
      map (\<lambda>qr. map (\<lambda>j. \<Sum>t\<leftarrow>ts. VR t qr ! j * exp (MX t qr - GM qr)) [0..<f]) q"
  proof (rule map_index)
    fix i assume i: "i < length q"
    show "map (\<lambda>j. sum_list (map (\<lambda>cv. cv ! i ! j)
          (map (\<lambda>t. map (\<lambda>qr. map (\<lambda>x. x * exp (MX t qr - GM qr)) (VR t qr)) q) ts))) [0..<f] =
      map (\<lambda>j. \<Sum>t\<leftarrow>ts. VR t (q ! i) ! j * exp (MX t (q ! i) - GM (q ! i))) [0..<f]"
    proof (rule map_cong [OF refl])
      fix j assume "j \<in> set [0..<f]"
      then have j: "j < f" by simp
      have "map (\<lambda>cv. cv ! i ! j)
          (map (\<lambda>t. map (\<lambda>qr. map (\<lambda>x. x * exp (MX t qr - GM qr)) (VR t qr)) q) ts) =
        map (\<lambda>t. VR t (q ! i) ! j * exp (MX t (q ! i) - GM (q ! i))) ts"
        using i j len by (simp add: comp_def)
      then show "sum_list (map (\<lambda>cv. cv ! i ! j)
          (map (\<lambda>t. map (\<lambda>qr. map (\<lambda>x. x * exp (MX t qr - GM qr)) (VR t qr)) q) ts)) =
        (\<Sum>t\<leftarrow>ts. VR t (q ! i) ! j * exp (MX t (q ! i) - GM (q ! i)))"
        by (rule arg_cong)
    qed
  qed
  have aw: "map (\<lambda>i. sum_list (map (\<lambda>cw. cw ! i)
          (map (\<lambda>t. map (\<lambda>qr. WS t qr * exp (MX t qr - GM qr)) q) ts))) [0..<length q] =
      map (\<lambda>qr. \<Sum>t\<leftarrow>ts. WS t qr * exp (MX t qr - GM qr)) q"
    by (rule map_index) (simp add: comp_def)
  have ne: "?chunks \<noteq> []" using ts by simp
  show ?thesis
    unfolding combine_chunks_def Let_def cv cw cm gm md cv' cw' av aw
    using ne by (simp add: GM_def)
qed

subsection \<open>Dot products over tiles and rescaling\<close>

lemma dot_Nil [simp]: "dot [] ys = 0" "dot xs [] = 0"
  by (simp_all add: dot_def)

lemma dot_Cons [simp]: "dot (x # xs) (y # ys) = x * y + dot xs ys"
  by (simp add: dot_def)

lemma dot_map_scale: "dot (map (\<lambda>x. a * g x) xs) ys = a * dot (map g xs) ys"
proof (induction xs arbitrary: ys)
  case Nil
  then show ?case by simp
next
  case (Cons x xs)
  then show ?case by (cases ys) (simp_all add: algebra_simps)
qed

lemma dot_scale_left: "dot (map (\<lambda>x. x / a) xs) ys = dot xs ys / a"
proof (induction xs arbitrary: ys)
  case Nil
  then show ?case by simp
next
  case (Cons x xs)
  then show ?case by (cases ys) (simp_all add: add_divide_distrib)
qed

lemma dot_take_drop:
  "dot (take c (drop s x)) (take c (drop s y)) = sum_list (take c (drop s (map2 (*) x y)))"
  by (simp add: dot_def take_map drop_map take_zip drop_zip)

lemma sum_list_concat_rows:
  fixes xss :: "real list list"
  shows "sum_list (concat xss) = sum_list (map sum_list xss)"
  by (induction xss) simp_all

lemma sum_list_tiles:
  fixes x :: "real list"
  assumes "length x = m * c"
  shows "(\<Sum>t\<leftarrow>[0..<m]. sum_list (take c (drop (t * c) x))) = sum_list x"
proof -
  have "(\<Sum>t\<leftarrow>[0..<m]. sum_list (take c (drop (t * c) x))) =
      sum_list (concat (map (\<lambda>t. take c (drop (t * c) x)) [0..<m]))"
    by (simp add: sum_list_concat_rows comp_def)
  then show ?thesis
    using concat_tiles [OF assms] by simp
qed

lemma dot_tiles:
  assumes "length x = m * c" and "length y = m * c"
  shows "(\<Sum>t\<leftarrow>[0..<m]. dot (take c (drop (t * c) x)) (take c (drop (t * c) y))) = dot x y"
proof -
  have "length (map2 (*) x y) = m * c"
    using assms by simp
  then have "(\<Sum>t\<leftarrow>[0..<m]. sum_list (take c (drop (t * c) (map2 (*) x y)))) =
      sum_list (map2 (*) x y)"
    by (rule sum_list_tiles)
  then show ?thesis
    by (simp only: dot_take_drop) (simp add: dot_def)
qed

lemma rescale_value:
  fixes m M :: real
  shows "dot (map (\<lambda>s. exp (s - m)) S) col * exp (m - M) = exp (- M) * dot (map exp S) col"
proof -
  have "(\<lambda>s::real. exp (s - m)) = (\<lambda>s. exp (- m) * exp s)"
    by (simp add: exp_diff exp_minus field_simps)
  then have "dot (map (\<lambda>s. exp (s - m)) S) col = exp (- m) * dot (map exp S) col"
    by (simp add: dot_map_scale)
  moreover have "exp (- m) * exp (m - M) = exp (- M)"
    by (simp add: exp_add [symmetric])
  ultimately show ?thesis
    by (simp add: mult.assoc mult.left_commute mult.commute)
qed

lemma rescale_weight:
  fixes m M :: real
  shows "sum_list (map (\<lambda>s. exp (s - m)) S) * exp (m - M) = exp (- M) * sum_list (map exp S)"
proof -
  have "(\<lambda>s::real. exp (s - m)) = (\<lambda>s. exp (- m) * exp s)"
    by (simp add: exp_diff exp_minus field_simps)
  then have "sum_list (map (\<lambda>s. exp (s - m)) S) = exp (- m) * sum_list (map exp S)"
    by (simp add: sum_list_const_mult)
  moreover have "exp (- m) * exp (m - M) = exp (- M)"
    by (simp add: exp_add [symmetric])
  ultimately show ?thesis
    by (simp add: mult.assoc mult.left_commute mult.commute)
qed

subsection \<open>Tiles that divide the sequence\<close>

lemma has_shape_scale: "has_shape n d q \<Longrightarrow> has_shape n d (map (map g) q)"
  by (simp add: has_shape_def list_all_iff)

lemma ceil_exact:
  fixes c m :: nat
  assumes "0 < c"
  shows "(m * c + c - 1) div c = m"
proof -
  obtain c' where c': "c = Suc c'"
    using assms by (cases c) simp_all
  have "m * c + c - 1 = c' + m * c"
    by (simp add: c')
  moreover have "(c' + m * c) div c = m + c' div c"
    using assms by simp
  moreover have "c' div c = 0"
    by (simp add: c')
  ultimately show ?thesis
    by simp
qed

lemma ceil_div_dvd:
  assumes "0 < c" and "n = m * c"
  shows "ceil_div n c = Inr m"
  using assms ceil_exact [OF assms(1), of m] by (simp add: ceil_div_def)

lemma chunk_scanner_tile:
  assumes k: "has_shape n d k" and v: "has_shape n f v" and "0 < c" and "j * c + c \<le> n"
  shows "dynamic_slice k (j * c, 0) (c, ncols k) = Inr (take c (drop (j * c) k))"
    and "dynamic_slice v (j * c, 0) (c, ncols v) = Inr (take c (drop (j * c) v))"
proof -
  have "min (j * c) (n - c) = j * c"
    using assms(4) by simp
  moreover have "length k = n" "length v = n" "c \<le> n"
    using k v assms(4) by (simp_all add: has_shape_def)
  ultimately show "dynamic_slice k (j * c, 0) (c, ncols k) = Inr (take c (drop (j * c) k))"
    and "dynamic_slice v (j * c, 0) (c, ncols v) = Inr (take c (drop (j * c) v))"
    using dynamic_slice_rows [OF has_shape_rows [OF k], of c "j * c"]
      dynamic_slice_rows [OF has_shape_rows [OF v], of c "j * c"]
    by simp_all
qed

section \<open>The key-chunk reducer of pipeline A\<close>

lemma dynamic_slice_key_tile:
  assumes "has_shape n d x" and "c \<le> n"
  shows "dynamic_slice x (t * c, 0) (c, ncols x) = Inr (key_tile c x t)"
  using dynamic_slice_rows [OF has_shape_rows [OF assms(1)], of c "t * c"] assms
  by (simp add: key_tile_def has_shape_def)

lemma has_shape_key_tile:
  assumes "has_shape n d x" and "c \<le> n"
  shows "has_shape c d (key_tile c x t)"
proof -
  have "min (t * c) (n - c) + c \<le> n"
    using assms(2) by simp
  then show ?thesis
    using assms(1) has_shape_take_drop [OF assms(1), of "min (t * c) (n - c)" c]
    by (simp add: key_tile_def has_shape_def)
qed

lemma tiles_exist:
  fixes n c :: nat
  assumes "0 < n" and "0 < c"
  shows "0 < (n + c - 1) div c"
proof -
  have "c \<le> n + c - 1"
    using assms by simp
  then show ?thesis
    using assms(2) by (simp add: div_greater_zero_iff)
qed

lemma query_chunk_sums_tiles:
  assumes q: "has_shape tq d q" and k: "has_shape n d k" and v: "has_shape n f v"
    and n: "0 < n" and kcs: "0 < kcs"
  shows "query_chunk_sums q k v kcs =
     (let c = min kcs n; nt = (n + c - 1) div c;
          G = (\<lambda>qr. maximum (map (\<lambda>t. tile_max qr (key_tile c k t)) [0..<nt]))
      in Inr (map (\<lambda>qr. map (\<lambda>j. \<Sum>t\<leftarrow>[0..<nt].
                          dot (tile_exp qr (key_tile c k t)) (map (\<lambda>vr. vr ! j) (key_tile c v t)) *
                          exp (tile_max qr (key_tile c k t) - G qr)) [0..<f])
                (map (map (\<lambda>x. x / sqrt (real d))) q),
              map (\<lambda>qr. \<Sum>t\<leftarrow>[0..<nt].
                     sum_list (tile_exp qr (key_tile c k t)) * exp (tile_max qr (key_tile c k t) - G qr))
                (map (map (\<lambda>x. x / sqrt (real d))) q)))"
proof -
  define c where "c = min kcs n"
  define nt where "nt = (n + c - 1) div c"
  define q' where "q' = map (map (\<lambda>x. x / sqrt (real d))) q"
  define MX where "MX t qr = tile_max qr (key_tile c k t)" for t qr
  define VR where "VR t qr =
    map (\<lambda>j. dot (tile_exp qr (key_tile c k t)) (map (\<lambda>vr. vr ! j) (key_tile c v t))) [0..<f]" for t qr
  define WS where "WS t qr = sum_list (tile_exp qr (key_tile c k t))" for t qr
  have c: "0 < c" "c \<le> n"
    using n kcs by (auto simp: c_def)
  have nt: "0 < nt"
    unfolding nt_def using n c(1) by (rule tiles_exist)
  have lens: "length k = n" "length v = n" "length q' = length q"
    using k v by (simp_all add: has_shape_def q'_def)
  have dims: "ncols k = d" "ncols v = f"
    using has_shape_ncols [OF k n] has_shape_ncols [OF v n] by simp_all
  have q': "has_shape tq d q'"
    unfolding q'_def using q by (rule has_shape_scale)
  have scanner: "chunk_scanner q' k v c d f (j * c) =
      Inr (map (VR j) q', map (WS j) q', map (MX j) q')" for j
  proof -
    have Kj: "has_shape c d (key_tile c k j)" and Vj: "has_shape c f (key_tile c v j)"
      using k v c(2) by (auto intro: has_shape_key_tile)
    have "ncols (key_tile c v j) = f"
      using Vj c(1) by (rule has_shape_ncols)
    moreover have "length (key_tile c v j) = c"
      using Vj by (simp add: has_shape_def)
    ultimately have "summarize_chunk q' (key_tile c k j) (key_tile c v j) =
        Inr (map (VR j) q', map (WS j) q', map (MX j) q')"
      using summarize_chunk_eq [OF q' Kj _ c(1), of "key_tile c v j"]
      by (simp add: VR_def WS_def MX_def tile_exp_def tile_max_def)
    then show ?thesis
      using dynamic_slice_key_tile [OF k c(2), of j] dynamic_slice_key_tile [OF v c(2), of j]
      by (simp add: chunk_scanner_def dims)
  qed
  have "lax_map (chunk_scanner q' k v c d f) (map (\<lambda>j. j * c) [0..<nt]) =
      Inr (map (\<lambda>s. (map (VR (s div c)) q', map (WS (s div c)) q', map (MX (s div c)) q'))
             (map (\<lambda>j. j * c) [0..<nt]))"
    using scanner c(1) by (intro lax_map_Inr) auto
  then have chunks: "lax_map (chunk_scanner q' k v c d f) (map (\<lambda>j. j * c) [0..<nt]) =
      Inr (map (\<lambda>t. (map (VR t) q', map (WS t) q', map (MX t) q')) [0..<nt])"
    using c(1) by (simp add: comp_def)
  have comb: "combine_chunks (length q') f
        (map (\<lambda>t. (map (VR t) q', map (WS t) q', map (MX t) q')) [0..<nt]) =
      Inr (map (\<lambda>qr. map (\<lambda>j. \<Sum>t\<leftarrow>[0..<nt]. VR t qr ! j *
                 exp (MX t qr - maximum (map (\<lambda>t. MX t qr) [0..<nt]))) [0..<f]) q',
           map (\<lambda>qr. \<Sum>t\<leftarrow>[0..<nt]. WS t qr *
                 exp (MX t qr - maximum (map (\<lambda>t. MX t qr) [0..<nt]))) q')"
    using nt by (intro combine_chunks_rows) (simp_all add: VR_def)
  have "arange n c = Inr (map (\<lambda>j. j * c) [0..<nt])"
    using c(1) by (simp add: arange_def nt_def)
  then have "query_chunk_sums q k v kcs =
      Inr (map (\<lambda>qr. map (\<lambda>j. \<Sum>t\<leftarrow>[0..<nt]. VR t qr ! j *
                 exp (MX t qr - maximum (map (\<lambda>t. MX t qr) [0..<nt]))) [0..<f]) q',
           map (\<lambda>qr. \<Sum>t\<leftarrow>[0..<nt]. WS t qr *
                 exp (MX t qr - maximum (map (\<lambda>t. MX t qr) [0..<nt]))) q')"
    using chunks comb
    by (simp add: query_chunk_sums_def Let_def lens dims c_def [symmetric] q'_def [symmetric])
  also have "\<dots> =
      Inr (map (\<lambda>qr. map (\<lambda>j. \<Sum>t\<leftarrow>[0..<nt].
                  dot (tile_exp qr (key_tile c k t)) (map (\<lambda>vr. vr ! j) (key_tile c v t)) *
                  exp (MX t qr - maximum (map (\<lambda>t. MX t qr) [0..<nt]))) [0..<f]) q',
           map (\<lambda>qr. \<Sum>t\<leftarrow>[0..<nt]. WS t qr *
                 exp (MX t qr - maximum (map (\<lambda>t. MX t qr) [0..<nt]))) q')"
    by (simp add: VR_def)
  finally show ?thesis
    unfolding Let_def c_def [symmetric] nt_def [symmetric] q'_def [symmetric]
    by (simp add: MX_def WS_def)
qed

lemma key_tile_exact:
  assumes "length x = m * c" and "t < m"
  shows "key_tile c x t = take c (drop (t * c) x)"
proof -
  from assms(2) have "Suc t \<le> m" by simp
  then have "Suc t * c \<le> m * c" by (rule mult_le_mono1)
  then have "t * c \<le> m * c - c" by simp
  then show ?thesis
    by (simp add: key_tile_def assms(1))
qed

lemma query_chunk_sums_eq:
  assumes q: "has_shape tq d q" and k: "has_shape n d k" and v: "has_shape n f v"
    and n: "0 < n" and kcs: "0 < kcs" and dvd: "min kcs n dvd n"
  shows "\<exists>G. query_chunk_sums q k v kcs =
     Inr (map (\<lambda>qr. map (\<lambda>x. exp (- G qr) * x) (vecmat (map exp (map (dot qr) k)) v))
            (map (map (\<lambda>x. x / sqrt (real d))) q),
          map (\<lambda>qr. exp (- G qr) * sum_list (map exp (map (dot qr) k)))
            (map (map (\<lambda>x. x / sqrt (real d))) q))"
proof -
  define c where "c = min kcs n"
  define m where "m = n div c"
  define G where "G qr = maximum (map (\<lambda>t. tile_max qr (key_tile c k t)) [0..<m])" for qr
  have c: "0 < c" and mc: "n = m * c"
    using n kcs dvd by (auto simp: c_def m_def)
  have nt: "(n + c - 1) div c = m"
    using ceil_exact [OF c, of m] by (simp add: mc)
  have lens: "length k = m * c" "length v = m * c"
    using k v mc by (simp_all add: has_shape_def)
  have f: "ncols v = f"
    using v n by (rule has_shape_ncols)
  have vals: "(\<Sum>t\<leftarrow>[0..<m]. dot (tile_exp qr (key_tile c k t)) (map (\<lambda>vr. vr ! j) (key_tile c v t)) *
        exp (tile_max qr (key_tile c k t) - G qr)) =
      exp (- G qr) * dot (map exp (map (dot qr) k)) (map (\<lambda>vr. vr ! j) v)" for qr j
  proof -
    have step: "dot (tile_exp qr (key_tile c k t)) (map (\<lambda>vr. vr ! j) (key_tile c v t)) *
          exp (tile_max qr (key_tile c k t) - G qr) =
        exp (- G qr) * dot (take c (drop (t * c) (map exp (map (dot qr) k))))
               (take c (drop (t * c) (map (\<lambda>vr. vr ! j) v)))" if "t \<in> set [0..<m]" for t
    proof -
      from that have t: "t < m" by simp
      have "dot (tile_exp qr (key_tile c k t)) (map (\<lambda>vr. vr ! j) (key_tile c v t)) *
          exp (tile_max qr (key_tile c k t) - G qr) =
        exp (- G qr) * dot (map exp (map (dot qr) (key_tile c k t)))
          (map (\<lambda>vr. vr ! j) (key_tile c v t))"
        by (simp only: tile_exp_def rescale_value)
      then show ?thesis
        by (simp only: key_tile_exact [OF lens(1) t] key_tile_exact [OF lens(2) t] take_map drop_map)
    qed
    have "(\<Sum>t\<leftarrow>[0..<m]. dot (tile_exp qr (key_tile c k t)) (map (\<lambda>vr. vr ! j) (key_tile c v t)) *
        exp (tile_max qr (key_tile c k t) - G qr)) =
        (\<Sum>t\<leftarrow>[0..<m]. exp (- G qr) *
           dot (take c (drop (t * c) (map exp (map (dot qr) k))))
               (take c (drop (t * c) (map (\<lambda>vr. vr ! j) v))))"
      using step by (intro arg_cong [where f = sum_list] map_cong refl)
    also have "\<dots> = exp (- G qr) * (\<Sum>t\<leftarrow>[0..<m].
           dot (take c (drop (t * c) (map exp (map (dot qr) k))))
               (take c (drop (t * c) (map (\<lambda>vr. vr ! j) v))))"
      by (simp add: sum_list_const_mult)
    also have "\<dots> = exp (- G qr) * dot (map exp (map (dot qr) k)) (map (\<lambda>vr. vr ! j) v)"
      using lens by (subst dot_tiles) simp_all
    finally show ?thesis .
  qed
  have wts: "(\<Sum>t\<leftarrow>[0..<m]. sum_list (tile_exp qr (key_tile c k t)) *
        exp (tile_max qr (key_tile c k t) - G qr)) =
      exp (- G qr) * sum_list (map exp (map (dot qr) k))" for qr
  proof -
    have step: "sum_list (tile_exp qr (key_tile c k t)) * exp (tile_max qr (key_tile c k t) - G qr) =
        exp (- G qr) * sum_list (take c (drop (t * c) (map exp (map (dot qr) k))))"
      if "t \<in> set [0..<m]" for t
    proof -
      from that have t: "t < m" by simp
      show ?thesis
        by (simp only: tile_exp_def rescale_weight key_tile_exact [OF lens(1) t] take_map drop_map)
    qed
    have "(\<Sum>t\<leftarrow>[0..<m]. sum_list (tile_exp qr (key_tile c k t)) *
        exp (tile_max qr (key_tile c k t) - G qr)) =
        (\<Sum>t\<leftarrow>[0..<m]. exp (- G qr) *
           sum_list (take c (drop (t * c) (map exp (map (dot qr) k)))))"
      using step by (intro arg_cong [where f = sum_list] map_cong refl)
    also have "\<dots> = exp (- G qr) * (\<Sum>t\<leftarrow>[0..<m].
           sum_list (take c (drop (t * c) (map exp (map (dot qr) k)))))"
      by (simp add: sum_list_const_mult)
    also have "\<dots> = exp (- G qr) * sum_list (map exp (map (dot qr) k))"
      using lens by (subst sum_list_tiles) simp_all
    finally show ?thesis .
  qed
  have "query_chunk_sums q k v kcs =
     Inr (map (\<lambda>qr. map (\<lambda>x. exp (- G qr) * x) (vecmat (map exp (map (dot qr) k)) v))
            (map (map (\<lambda>x. x / sqrt (real d))) q),
          map (\<lambda>qr. exp (- G qr) * sum_list (map exp (map (dot qr) k)))
            (map (map (\<lambda>x. x / sqrt (real d))) q))"
    unfolding query_chunk_sums_tiles [OF q k v n kcs] Let_def c_def [symmetric] nt
      G_def [symmetric] vals wts
    by (simp add: vecmat_def f comp_def)
  then show ?thesis by blast
qed

lemma divide_rows_maps:
  "divide_rows (map A q) (map W q) = map (\<lambda>qr. map (\<lambda>x. x / W qr) (A qr)) q"
  by (simp add: divide_rows_def map2_same)

lemma vecmat_divide: "vecmat (map (\<lambda>x. x / D) e) v = map (\<lambda>x. x / D) (vecmat e v)"
  by (simp add: vecmat_def dot_scale_left)

lemma vecmat_softmax:
  "vecmat (softmax s) v = map (\<lambda>x. x / sum_list (map exp s)) (vecmat (map exp s) v)"
proof -
  have "softmax s = map (\<lambda>x. x / sum_list (map exp s)) (map exp s)"
    by (simp add: softmax_def comp_def)
  then show ?thesis
    by (simp only: vecmat_divide)
qed

lemma query_chunk_attention_eq:
  assumes q: "has_shape tq d q" and k: "has_shape n d k" and v: "has_shape n f v"
    and n: "0 < n" and kcs: "0 < kcs" and dvd: "min kcs n dvd n"
  shows "query_chunk_attention q k v kcs =
     Inr (map (\<lambda>qr. vecmat (softmax (map (\<lambda>kr. 1 / sqrt (real d) * dot qr kr) k)) v) q)"
proof -
  obtain G where G: "query_chunk_sums q k v kcs =
     Inr (map (\<lambda>qr. map (\<lambda>x. exp (- G qr) * x) (vecmat (map exp (map (dot qr) k)) v))
            (map (map (\<lambda>x. x / sqrt (real d))) q),
          map (\<lambda>qr. exp (- G qr) * sum_list (map exp (map (dot qr) k)))
            (map (map (\<lambda>x. x / sqrt (real d))) q))"
    using query_chunk_sums_eq [OF assms] by blast
  have "map (\<lambda>x. x / (exp (- G qr) * D)) (map (\<lambda>x. exp (- G qr) * x) N) = map (\<lambda>x. x / D) N"
    for qr :: vec and D :: real and N :: vec
    by (simp add: comp_def)
  then show ?thesis
    unfolding query_chunk_attention_def G
    by (simp add: divide_rows_maps vecmat_softmax comp_def dot_scale_left)
qed

section \<open>The query-chunk driver\<close>

lemma driver_tiles:
  assumes q: "has_shape ql d q" and qcs: "0 < qcs" and ql: "ql = nq * qcs"
    and inner: "\<And>t tile. has_shape t d tile \<Longrightarrow> inner tile = Inr (map R tile)"
  shows "scan (\<lambda>idx. case dynamic_slice q (idx, 0) (min qcs ql, ncols q) of
                      Inl e \<Rightarrow> Inl e
                    | Inr qc \<Rightarrow> (case inner qc of Inl e \<Rightarrow> Inl e | Inr out \<Rightarrow> Inr (idx + qcs, out)))
           0 nq =
         Inr (map (\<lambda>j. map R (take qcs (drop (j * qcs) q))) [0..<nq])"
proof -
  let ?f = "\<lambda>idx. case dynamic_slice q (idx, 0) (min qcs ql, ncols q) of
                      Inl e \<Rightarrow> Inl e
                    | Inr qc \<Rightarrow> (case inner qc of Inl e \<Rightarrow> Inl e | Inr out \<Rightarrow> Inr (idx + qcs, out))"
  have step: "?f (0 + j * qcs) = Inr (0 + j * qcs + qcs, map R (take qcs (drop (0 + j * qcs) q)))"
    if "j < nq" for j
  proof -
    from that have "Suc j \<le> nq" by simp
    then have "Suc j * qcs \<le> nq * qcs" by (rule mult_le_mono1)
    then have fit: "j * qcs + qcs \<le> ql" by (simp add: ql add.commute)
    then have "min qcs ql = qcs" by simp
    moreover have "dynamic_slice q (j * qcs, 0) (qcs, ncols q) = Inr (take qcs (drop (j * qcs) q))"
      using chunk_scanner_tile(1) [OF q q qcs fit] .
    moreover have "has_shape qcs d (take qcs (drop (j * qcs) q))"
      using q fit by (rule has_shape_take_drop)
    ultimately show ?thesis
      by (simp add: inner)
  qed
  have traced: "\<exists>r. ?f 0 = Inr r"
  proof (cases nq)
    case 0
    then have "q = []"
      using q ql by (simp add: has_shape_def)
    then show ?thesis
      using inner [of 0 "[]"] 0 ql by (simp add: dynamic_slice_def has_shape_def)
  next
    case (Suc m)
    then show ?thesis
      using step [of 0] by (auto split: sum.splits)
  qed
  then obtain r where "?f 0 = Inr r" by blast
  then show ?thesis
    using scan_Inr [of nq ?f 0 qcs "\<lambda>s. map R (take qcs (drop s q))", OF step] by simp
qed

lemma driver_eq:
  assumes q: "has_shape ql d q" and qcs: "0 < qcs" and fit: "qcs dvd ql \<or> ql \<le> qcs"
    and inner: "\<And>t tile. has_shape t d tile \<Longrightarrow> inner tile = Inr (map R tile)"
    and len: "\<And>qr. length (R qr) = f"
  shows "(case ceil_div ql qcs of
            Inl e \<Rightarrow> Inl e
          | Inr n \<Rightarrow>
             (case scan (\<lambda>idx. case dynamic_slice q (idx, 0) (min qcs ql, ncols q) of
                      Inl e \<Rightarrow> Inl e
                    | Inr qc \<Rightarrow> (case inner qc of Inl e \<Rightarrow> Inl e | Inr out \<Rightarrow> Inr (idx + qcs, out)))
                    0 n of
                Inl e \<Rightarrow> Inl e
              | Inr res \<Rightarrow> reshape res ql f)) = Inr (map R q)"
proof (cases "qcs dvd ql")
  case True
  then obtain nq where ql: "ql = nq * qcs"
    by (auto simp: dvd_def mult.commute)
  have lq: "length q = nq * qcs"
    using q ql by (simp add: has_shape_def)
  have cat: "concat (map (\<lambda>j. map R (take qcs (drop (j * qcs) q))) [0..<nq]) = map R q"
    using concat_tiles [OF lq] map_concat [of R "map (\<lambda>j. take qcs (drop (j * qcs) q)) [0..<nq]"]
    by (simp add: comp_def)
  have "reshape (map (\<lambda>j. map R (take qcs (drop (j * qcs) q))) [0..<nq]) ql f = Inr (map R q)"
    using reshape_concat [of f "map (\<lambda>j. map R (take qcs (drop (j * qcs) q))) [0..<nq]" ql]
    unfolding cat using q by (simp add: list_all_iff len has_shape_def)
  then show ?thesis
    using ceil_div_dvd [OF qcs ql] driver_tiles [OF q qcs ql inner] by simp
next
  case False
  with fit have small: "ql < qcs" "0 < ql"
    by (cases "ql = qcs"; cases "ql = 0"; simp)+
  then obtain a where a: "ql = Suc a" "a < qcs"
    by (cases ql) simp_all
  have "(ql + qcs - 1) div qcs = (a + qcs) div qcs"
    by (simp add: a)
  also have "\<dots> = 1"
    using a(2) by simp
  finally have "(ql + qcs - 1) div qcs = 1" .
  then have cd: "ceil_div ql qcs = Inr (Suc 0)"
    using qcs by (simp add: ceil_div_def)
  have "dynamic_slice q (0, 0) (ql, ncols q) = Inr q"
    using dynamic_slice_rows [OF has_shape_rows [OF q], of ql 0] q by (simp add: has_shape_def)
  moreover have "min qcs ql = ql"
    using small by simp
  moreover have "reshape [map R q] ql f = Inr (map R q)"
    using reshape_concat [of f "[map R q]" ql] q by (simp add: list_all_iff len has_shape_def)
  ultimately show ?thesis
    using cd inner [OF q] by (simp add: scan_def)
qed

subsection \<open>Pipeline A equals direct softmax attention on exact tilings\<close>

lemma length_vecmat: "length (vecmat x v) = ncols v"
  by (simp add: vecmat_def)

lemma rabe_attention_eq:
  assumes q: "has_shape ql d q" and k: "has_shape n d k" and v: "has_shape n f v"
    and n: "0 < n" and kcs: "0 < kcs" and kdvd: "min kcs n dvd n"
    and qcs: "0 < qcs" and qfit: "qcs dvd ql \<or> ql \<le> qcs"
  shows "rabe_attention q k v qcs kcs = Inr (softmax_attention (1 / sqrt (real d)) q k v)"
proof -
  have ql: "length q = ql"
    using q by (simp add: has_shape_def)
  have inner: "query_chunk_attention tile k v kcs =
      Inr (map (\<lambda>qr. vecmat (softmax (map (\<lambda>kr. 1 / sqrt (real d) * dot qr kr) k)) v) tile)"
    if "has_shape t d tile" for t tile
    using that k v n kcs kdvd by (rule query_chunk_attention_eq)
  show ?thesis
    unfolding rabe_attention_def q_chunk_scanner_def Let_def ql softmax_attention_def matmul_def
    using driver_eq [OF q qcs qfit inner, where f = "ncols v"]
    by (simp add: length_vecmat comp_def)
qed

section \<open>Pipeline B on exact tilings\<close>

lemma cos_summarize_chunk_eq:
  assumes "has_shape tq d q" and "has_shape c d K" and "length V = c"
  shows "cos_summarize_chunk scale q K V =
     Inr (map (\<lambda>qr. vecmat (map (\<lambda>kr. dot qr kr * scale) K) V) q,
          map (\<lambda>qr. sum_list (map (\<lambda>kr. exp (dot qr kr * scale)) K)) q)"
proof -
  have K: "length K = c" using assms by (simp add: has_shape_def)
  have 1: "einsum_qd_kd q K = Inr (map (\<lambda>qr. map (dot qr) K) q)"
    using assms(1,2) by (rule einsum_qd_kd_shape)
  have 2: "map (map (\<lambda>s. s * scale)) (map (\<lambda>qr. map (dot qr) K) q) =
      map (\<lambda>qr. map (\<lambda>kr. dot qr kr * scale) K) q"
    by (simp add: comp_def)
  have 3: "list_all (\<lambda>r. length r = length V) (map (\<lambda>qr. map (\<lambda>kr. dot qr kr * scale) K) q)"
    using K assms(3) by (simp add: list_all_iff)
  show ?thesis
    unfolding cos_summarize_chunk_def 1 sum.case Let_def 2 einsum_vf_qv_shape [OF 3]
    by (simp add: comp_def vecmat_def)
qed

lemma cos_combine_chunks_rows:
  assumes len: "\<And>t qr. t \<in> set ts \<Longrightarrow> qr \<in> set q \<Longrightarrow> length (VR t qr) = f"
  shows "cos_combine_chunks (length q) f (map (\<lambda>t. (map (VR t) q, map (WS t) q)) ts) =
     (map (\<lambda>qr. map (\<lambda>j. \<Sum>t\<leftarrow>ts. VR t qr ! j) [0..<f]) q,
      map (\<lambda>qr. \<Sum>t\<leftarrow>ts. WS t qr) q)"
proof -
  let ?chunks = "map (\<lambda>t. (map (VR t) q, map (WS t) q)) ts"
  have cv: "map fst ?chunks = map (\<lambda>t. map (VR t) q) ts"
    and cw: "map snd ?chunks = map (\<lambda>t. map (WS t) q) ts"
    by (simp_all add: comp_def)
  have av: "map (\<lambda>i. map (\<lambda>j. sum_list (map (\<lambda>cv. cv ! i ! j) (map (\<lambda>t. map (VR t) q) ts))) [0..<f])
        [0..<length q] =
      map (\<lambda>qr. map (\<lambda>j. \<Sum>t\<leftarrow>ts. VR t qr ! j) [0..<f]) q"
    by (rule map_index) (simp add: comp_def)
  have aw: "map (\<lambda>i. sum_list (map (\<lambda>cw. cw ! i) (map (\<lambda>t. map (WS t) q) ts))) [0..<length q] =
      map (\<lambda>qr. \<Sum>t\<leftarrow>ts. WS t qr) q"
    by (rule map_index) (simp add: comp_def)
  show ?thesis
    unfolding cos_combine_chunks_def Let_def cv cw av aw by simp
qed

lemma cos_query_chunk_sums_tiles:
  assumes q: "has_shape tq d q" and k: "has_shape n d k" and v: "has_shape n f v"
    and n: "0 < n" and kcs: "0 < kcs"
  shows "cos_query_chunk_sums q k v kcs scale =
     (let c = min kcs n; nt = (n + c - 1) div c
      in Inr (map (\<lambda>qr. map (\<lambda>j. \<Sum>t\<leftarrow>[0..<nt].
                          dot (map (\<lambda>kr. dot qr kr * scale) (key_tile c k t))
                              (map (\<lambda>vr. vr ! j) (key_tile c v t))) [0..<f]) q,
              map (\<lambda>qr. \<Sum>t\<leftarrow>[0..<nt].
                     sum_list (map (\<lambda>kr. exp (dot qr kr * scale)) (key_tile c k t))) q))"
proof -
  define c where "c = min kcs n"
  define nt where "nt = (n + c - 1) div c"
  define VR where "VR t qr = vecmat (map (\<lambda>kr. dot qr kr * scale) (key_tile c k t)) (key_tile c v t)"
    for t qr
  define WS where "WS t qr = sum_list (map (\<lambda>kr. exp (dot qr kr * scale)) (key_tile c k t))" for t qr
  have c: "0 < c" "c \<le> n"
    using n kcs by (auto simp: c_def)
  have lens: "length k = n" "length v = n"
    using k v by (simp_all add: has_shape_def)
  have dims: "ncols k = d" "ncols v = f"
    using has_shape_ncols [OF k n] has_shape_ncols [OF v n] by simp_all
  have Vf: "ncols (key_tile c v j) = f" for j
    using has_shape_key_tile [OF v c(2)] c(1) by (rule has_shape_ncols)
  have scanner: "cos_chunk_scanner scale q k v c d f (j * c) = Inr (map (VR j) q, map (WS j) q)" for j
  proof -
    have Kj: "has_shape c d (key_tile c k j)"
      using k c(2) by (rule has_shape_key_tile)
    have "length (key_tile c v j) = c"
      using has_shape_key_tile [OF v c(2), of j] by (simp add: has_shape_def)
    then have "cos_summarize_chunk scale q (key_tile c k j) (key_tile c v j) =
        Inr (map (VR j) q, map (WS j) q)"
      using cos_summarize_chunk_eq [OF q Kj, of "key_tile c v j" scale] by (simp add: VR_def WS_def)
    then show ?thesis
      using dynamic_slice_key_tile [OF k c(2), of j] dynamic_slice_key_tile [OF v c(2), of j]
      by (simp add: cos_chunk_scanner_def dims)
  qed
  have "lax_map (cos_chunk_scanner scale q k v c d f) (map (\<lambda>j. j * c) [0..<nt]) =
      Inr (map (\<lambda>s. (map (VR (s div c)) q, map (WS (s div c)) q)) (map (\<lambda>j. j * c) [0..<nt]))"
    using scanner c(1) by (intro lax_map_Inr) auto
  then have chunks: "lax_map (cos_chunk_scanner scale q k v c d f) (map (\<lambda>j. j * c) [0..<nt]) =
      Inr (map (\<lambda>t. (map (VR t) q, map (WS t) q)) [0..<nt])"
    using c(1) by (simp add: comp_def)
  have comb: "cos_combine_chunks (length q) f (map (\<lambda>t. (map (VR t) q, map (WS t) q)) [0..<nt]) =
      (map (\<lambda>qr. map (\<lambda>j. \<Sum>t\<leftarrow>[0..<nt]. VR t qr ! j) [0..<f]) q,
       map (\<lambda>qr. \<Sum>t\<leftarrow>[0..<nt]. WS t qr) q)"
    by (intro cos_combine_chunks_rows) (simp add: VR_def length_vecmat Vf)
  have "arange n c = Inr (map (\<lambda>j. j * c) [0..<nt])"
    using c(1) by (simp add: arange_def nt_def)
  then have "cos_query_chunk_sums q k v kcs scale =
      Inr (map (\<lambda>qr. map (\<lambda>j. \<Sum>t\<leftarrow>[0..<nt]. VR t qr ! j) [0..<f]) q,
           map (\<lambda>qr. \<Sum>t\<leftarrow>[0..<nt]. WS t qr) q)"
    using chunks comb
    by (simp add: cos_query_chunk_sums_def Let_def lens dims c_def [symmetric])
  also have "\<dots> =
      Inr (map (\<lambda>qr. map (\<lambda>j. \<Sum>t\<leftarrow>[0..<nt].
                   dot (map (\<lambda>kr. dot qr kr * scale) (key_tile c k t))
                       (map (\<lambda>vr. vr ! j) (key_tile c v t))) [0..<f]) q,
           map (\<lambda>qr. \<Sum>t\<leftarrow>[0..<nt]. WS t qr) q)"
    by (simp add: VR_def vecmat_def Vf)
  finally show ?thesis
    unfolding Let_def c_def [symmetric] nt_def [symmetric] by (simp add: WS_def)
qed

lemma cos_query_chunk_sums_eq:
  assumes q: "has_shape tq d q" and k: "has_shape n d k" and v: "has_shape n f v"
    and n: "0 < n" and kcs: "0 < kcs" and dvd: "min kcs n dvd n"
  shows "cos_query_chunk_sums q k v kcs scale =
     Inr (map (\<lambda>qr. vecmat (map (\<lambda>kr. dot qr kr * scale) k) v) q,
          map (\<lambda>qr. sum_list (map (\<lambda>kr. exp (dot qr kr * scale)) k)) q)"
proof -
  define c where "c = min kcs n"
  define m where "m = n div c"
  have c: "0 < c" and mc: "n = m * c"
    using n kcs dvd by (auto simp: c_def m_def)
  have nt: "(n + c - 1) div c = m"
    using ceil_exact [OF c, of m] by (simp add: mc)
  have lens: "length k = m * c" "length v = m * c"
    using k v mc by (simp_all add: has_shape_def)
  have f: "ncols v = f"
    using v n by (rule has_shape_ncols)
  have vals: "(\<Sum>t\<leftarrow>[0..<m]. dot (map (\<lambda>kr. dot qr kr * scale) (key_tile c k t))
          (map (\<lambda>vr. vr ! j) (key_tile c v t))) =
      dot (map (\<lambda>kr. dot qr kr * scale) k) (map (\<lambda>vr. vr ! j) v)" for qr j
  proof -
    have step: "dot (map (\<lambda>kr. dot qr kr * scale) (key_tile c k t))
          (map (\<lambda>vr. vr ! j) (key_tile c v t)) =
        dot (take c (drop (t * c) (map (\<lambda>kr. dot qr kr * scale) k)))
            (take c (drop (t * c) (map (\<lambda>vr. vr ! j) v)))" if "t \<in> set [0..<m]" for t
    proof -
      from that have t: "t < m" by simp
      show ?thesis
        by (simp only: key_tile_exact [OF lens(1) t] key_tile_exact [OF lens(2) t] take_map drop_map)
    qed
    have "(\<Sum>t\<leftarrow>[0..<m]. dot (map (\<lambda>kr. dot qr kr * scale) (key_tile c k t))
          (map (\<lambda>vr. vr ! j) (key_tile c v t))) =
        (\<Sum>t\<leftarrow>[0..<m]. dot (take c (drop (t * c) (map (\<lambda>kr. dot qr kr * scale) k)))
            (take c (drop (t * c) (map (\<lambda>vr. vr ! j) v))))"
      using step by (intro arg_cong [where f = sum_list] map_cong refl)
    also have "\<dots> = dot (map (\<lambda>kr. dot qr kr * scale) k) (map (\<lambda>vr. vr ! j) v)"
      using lens by (subst dot_tiles) simp_all
    finally show ?thesis .
  qed
  have wts: "(\<Sum>t\<leftarrow>[0..<m]. sum_list (map (\<lambda>kr. exp (dot qr kr * scale)) (key_tile c k t))) =
      sum_list (map (\<lambda>kr. exp (dot qr kr * scale)) k)" for qr
  proof -
    have step: "sum_list (map (\<lambda>kr. exp (dot qr kr * scale)) (key_tile c k t)) =
        sum_list (take c (drop (t * c) (map (\<lambda>kr. exp (dot qr kr * scale)) k)))"
      if "t \<in> set [0..<m]" for t
    proof -
      from that have t: "t < m" by simp
      show ?thesis
        by (simp only: key_tile_exact [OF lens(1) t] take_map drop_map)
    qed
    have "(\<Sum>t\<leftarrow>[0..<m]. sum_list (map (\<lambda>kr. exp (dot qr kr * scale)) (key_tile c k t))) =
        (\<Sum>t\<leftarrow>[0..<m]. sum_list (take c (drop (t * c) (map (\<lambda>kr. exp (dot qr kr * scale)) k))))"
      by (rule arg_cong [where f = sum_list], rule map_cong [OF refl], rule step)
    also have "\<dots> = sum_list (map (\<lambda>kr. exp (dot qr kr * scale)) k)"
      using lens by (subst sum_list_tiles) simp_all
    finally show ?thesis .
  qed
  show ?thesis
    unfolding cos_query_chunk_sums_tiles [OF q k v n kcs] Let_def c_def [symmetric] nt vals wts
    by (simp add: vecmat_def f)
qed

lemma query_chunk_cosine_sim_attention_eq:
  assumes q: "has_shape tq d q" and k: "has_shape n d k" and v: "has_shape n f v"
    and n: "0 < n" and kcs: "0 < kcs" and dvd: "min kcs n dvd n"
  shows "query_chunk_cosine_sim_attention q k v kcs scale =
     Inr (map (\<lambda>qr. map (\<lambda>x. x / sum_list (map exp (map (\<lambda>kr. scale * dot qr kr) k)))
                       (vecmat (map (\<lambda>kr. scale * dot qr kr) k) v)) q)"
  unfolding query_chunk_cosine_sim_attention_def cos_query_chunk_sums_eq [OF assms]
  by (simp add: divide_rows_maps comp_def mult.commute)

lemma unchunked_cosine_sim_rows:
  "unchunked_cosine_sim scale q k v =
     map (\<lambda>qr. map (\<lambda>x. x / sum_list (map exp (map (\<lambda>kr. scale * dot qr kr) k)))
                  (vecmat (map (\<lambda>kr. scale * dot qr kr) k) v)) q"
  unfolding unchunked_cosine_sim_def Let_def matmul_def map_map comp_def
  by (simp only: divide_rows_maps)

lemma has_shape_l2norm: "has_shape n d t \<Longrightarrow> has_shape n d (l2norm t eps)"
  by (simp add: l2norm_def Let_def has_shape_scale)

lemma rabe_cosine_sim_attention_eq:
  assumes q: "has_shape ql d q" and k: "has_shape n d k" and v: "has_shape n f v"
    and n: "0 < n" and kcs: "0 < kcs" and kdvd: "min kcs n dvd n"
    and qcs: "0 < qcs" and qfit: "qcs dvd ql \<or> ql \<le> qcs"
  shows "rabe_cosine_sim_attention q k v qcs kcs scale eps =
     Inr (unchunked_cosine_sim scale (l2norm q l2norm_eps) (l2norm k l2norm_eps) v)"
proof -
  define q' where "q' = l2norm q l2norm_eps"
  define k' where "k' = l2norm k l2norm_eps"
  have q': "has_shape ql d q'" and k': "has_shape n d k'"
    unfolding q'_def k'_def using q k by (simp_all add: has_shape_l2norm)
  have ql: "length q = ql" "length q' = ql"
    using q q' by (simp_all add: has_shape_def)
  have inner: "query_chunk_cosine_sim_attention tile k' v kcs scale =
      Inr (map (\<lambda>qr. map (\<lambda>x. x / sum_list (map exp (map (\<lambda>kr. scale * dot qr kr) k')))
                       (vecmat (map (\<lambda>kr. scale * dot qr kr) k') v)) tile)"
    if "has_shape t d tile" for t tile
    using that k' v n kcs kdvd by (rule query_chunk_cosine_sim_attention_eq)
  show ?thesis
    unfolding rabe_cosine_sim_attention_def cos_q_chunk_scanner_def Let_def
      q'_def [symmetric] k'_def [symmetric] ql unchunked_cosine_sim_rows
    using driver_eq [OF q' qcs qfit inner, where f = "ncols v"]
    by (simp add: length_vecmat comp_def)
qed

section \<open>The denominators are positive\<close>

lemma sum_list_pos_nonempty:
  fixes xs :: "real list"
  assumes "xs \<noteq> []" and "\<And>x. x \<in> set xs \<Longrightarrow> 0 < x"
  shows "0 < sum_list xs"
  using assms
proof (induction xs)
  case Nil
  then show ?case by simp
next
  case (Cons x xs)
  have "0 \<le> sum_list xs"
    using Cons.prems(2) by (intro sum_list_nonneg) (simp add: less_imp_le)
  moreover have "0 < x"
    using Cons.prems(2) by simp
  ultimately show ?case by simp
qed

lemma key_tile_nonempty:
  assumes "0 < c" and "c \<le> length x"
  shows "key_tile c x t \<noteq> []"
proof -
  have "length (key_tile c x t) = c"
    using assms(2) by (simp add: key_tile_def)
  then show ?thesis
    using assms(1) by auto
qed

lemma query_chunk_weights_positive:
  assumes q: "has_shape tq d q" and k: "has_shape n d k" and v: "has_shape n f v"
    and n: "0 < n" and kcs: "0 < kcs"
  shows "\<exists>all_values all_weights.
     query_chunk_sums q k v kcs = Inr (all_values, all_weights) \<and>
     length all_weights = tq \<and> list_all (\<lambda>w. 0 < w) all_weights"
proof -
  define c where "c = min kcs n"
  define nt where "nt = (n + c - 1) div c"
  have c: "0 < c" "c \<le> length k"
    using n kcs k by (auto simp: c_def has_shape_def)
  have nt: "[0..<nt] \<noteq> []"
    using tiles_exist [OF n c(1)] by (simp add: nt_def)
  have tile: "0 < sum_list (tile_exp qr (key_tile c k t))" for qr t
    using key_tile_nonempty [OF c, of t]
    by (intro sum_list_pos_nonempty) (auto simp: tile_exp_def)
  have "0 < (\<Sum>t\<leftarrow>[0..<nt]. sum_list (tile_exp qr (key_tile c k t)) * exp (tile_max qr (key_tile c k t) - M))"
    for qr and M :: real
    using nt tile by (intro sum_list_pos_nonempty) auto
  then show ?thesis
    unfolding query_chunk_sums_tiles [OF q k v n kcs] Let_def c_def [symmetric] nt_def [symmetric]
    using q by (simp add: list_all_iff has_shape_def)
qed

lemma cos_query_chunk_weights_positive:
  assumes q: "has_shape tq d q" and k: "has_shape n d k" and v: "has_shape n f v"
    and n: "0 < n" and kcs: "0 < kcs"
  shows "\<exists>all_values all_weights.
     cos_query_chunk_sums q k v kcs scale = Inr (all_values, all_weights) \<and>
     length all_weights = tq \<and> list_all (\<lambda>w. 0 < w) all_weights"
proof -
  define c where "c = min kcs n"
  define nt where "nt = (n + c - 1) div c"
  have c: "0 < c" "c \<le> length k"
    using n kcs k by (auto simp: c_def has_shape_def)
  have nt: "[0..<nt] \<noteq> []"
    using tiles_exist [OF n c(1)] by (simp add: nt_def)
  have tile: "0 < sum_list (map (\<lambda>kr. exp (dot qr kr * scale)) (key_tile c k t))" for qr t
    using key_tile_nonempty [OF c, of t]
    by (intro sum_list_pos_nonempty) auto
  have "0 < (\<Sum>t\<leftarrow>[0..<nt]. sum_list (map (\<lambda>kr. exp (dot qr kr * scale)) (key_tile c k t)))" for qr
    using nt tile by (intro sum_list_pos_nonempty) auto
  then show ?thesis
    unfolding cos_query_chunk_sums_tiles [OF q k v n kcs] Let_def c_def [symmetric] nt_def [symmetric]
    using q by (simp add: list_all_iff has_shape_def)
qed

section \<open>Calls that are rejected\<close>









section \<open>The entry points on concrete arrays\<close>

lemma upt2: "[0..<2] = [0, 1]" and upt1: "[0..<1] = [0]"
  by (simp_all add: upt_rec)

lemma len3: "length [a, b, c] = 3" and len2: "length [a, b] = 2" and len1: "length [a] = 1"
  by simp_all

lemma ragged_sums: "query_chunk_sums [[0]] [[0], [0], [0]] [[1], [0], [0]] 2 = Inr ([[1]], [4])"
  unfolding query_chunk_sums_def Let_def len3 len1
  apply (simp add: arange_def upt2 ncols_def)
  apply (simp add: chunk_scanner_def dynamic_slice_def ncols_def summarize_chunk_def einsum_qd_kd_def
     row_max_def maximum_def einsum_vf_qv_def)
  apply (simp add: combine_chunks_def Let_def maximum_def)
  done

lemma ragged_attention: "rabe_attention [[0]] [[0], [0], [0]] [[1], [0], [0]] 1 2 = Inr [[1 / 4]]"
  unfolding rabe_attention_def Let_def len1
  by (simp add: ceil_div_def q_chunk_scanner_def dynamic_slice_def ncols_def
      query_chunk_attention_def ragged_sums divide_rows_def reshape_def scan_def)

lemma direct_uniform:
  "softmax_attention c [[0]] [[0], [0], [0]] [[1], [0], [0]] = [[1 / 3]]"
  by (simp add: softmax_attention_def matmul_def vecmat_def softmax_def ncols_def)

lemma cos_zero:
  "rabe_cosine_sim_attention [[0]] [[0], [0], [0]] [[1], [0], [0]] 1 1 16 eps = Inr [[0]]"
proof -
  have "rabe_cosine_sim_attention [[0]] [[0], [0], [0]] [[1], [0], [0]] 1 1 16 eps =
     Inr (unchunked_cosine_sim 16 (l2norm [[0]] l2norm_eps) (l2norm [[0], [0], [0]] l2norm_eps)
       [[1], [0], [0]])"
    by (rule rabe_cosine_sim_attention_eq [where ql = 1 and d = 1 and n = 3 and f = 1])
      (simp_all add: has_shape_def)
  then show ?thesis
    by (simp add: unchunked_cosine_sim_def l2norm_def matmul_def vecmat_def ncols_def
        divide_rows_def)
qed

lemma direct_normalised:
  "softmax_attention 16 (row_l2norm l2norm_eps [[0]]) (row_l2norm l2norm_eps [[0], [0], [0]])
     [[1], [0], [0]] = [[1 / 3]]"
  by (simp add: row_l2norm_def direct_uniform)

lemma len10: "length [a0, a1, a2, a3, a4, a5, a6, a7, a8, a9] = 10"
  by simp

lemma ten_rows_tile:
  "idx = 0 \<or> idx = 4 \<or> idx = 8 \<Longrightarrow>
   dynamic_slice [[0], [0], [0], [0], [0], [0], [0], [0], [0], [0]] (idx, 0) (4, 1) =
     Inr [[0], [0], [0], [0::real]]"
  unfolding dynamic_slice_def prod.case len10
  by (auto simp: ncols_def)

lemma four_rows_attention:
  "query_chunk_attention [[0], [0], [0], [0]] [[0]] [[1]] 1 = Inr [[1], [1], [1], [1]]"
proof -
  have "query_chunk_attention [[0], [0], [0], [0]] [[0]] [[1]] 1 =
      Inr (map (\<lambda>qr. vecmat (softmax (map (\<lambda>kr. 1 / sqrt (real 1) * dot qr kr) [[0]])) [[1]])
             [[0], [0], [0], [0]])"
    by (rule query_chunk_attention_eq [where tq = 4 and n = 1 and f = 1])
      (simp_all add: has_shape_def)
  then show ?thesis
    by (simp add: vecmat_def softmax_def ncols_def)
qed

lemma four_rows_cosine:
  "query_chunk_cosine_sim_attention [[0], [0], [0], [0]] [[0]] [[1]] 1 scale =
     Inr [[0], [0], [0], [0]]"
proof -
  have "query_chunk_cosine_sim_attention [[0], [0], [0], [0]] [[0]] [[1]] 1 scale =
     Inr (map (\<lambda>qr. map (\<lambda>x. x / sum_list (map exp (map (\<lambda>kr. scale * dot qr kr) [[0]])))
                       (vecmat (map (\<lambda>kr. scale * dot qr kr) [[0]]) [[1]])) [[0], [0], [0], [0]])"
    by (rule query_chunk_cosine_sim_attention_eq [where tq = 4 and d = 1 and n = 1 and f = 1])
      (simp_all add: has_shape_def)
  then show ?thesis
    by (simp add: vecmat_def ncols_def)
qed

lemma scan3:
  "f c0 = Inr (c1, y0) \<Longrightarrow> f c1 = Inr (c2, y1) \<Longrightarrow> f c2 = Inr (c3, y2) \<Longrightarrow>
   scan f c0 3 = Inr [y0, y1, y2]"
  by (simp add: scan_def numeral_3_eq_3)

lemma ten_rows_attention:
  "rabe_attention [[0], [0], [0], [0], [0], [0], [0], [0], [0], [0]] [[0]] [[1]] 4 1 =
     Inl ReshapeError"
proof -
  let ?q = "[[0], [0], [0], [0], [0], [0], [0], [0], [0], [0::real]]"
  have step: "q_chunk_scanner ?q [[0]] [[1]] 4 1 idx = Inr (idx + 4, [[1], [1], [1], [1]])"
    if "idx = 0 \<or> idx = 4 \<or> idx = 8" for idx
    unfolding q_chunk_scanner_def len10
    using ten_rows_tile [OF that] four_rows_attention by (simp add: ncols_def)
  have "q_chunk_scanner ?q [[0]] [[1]] 4 1 0 = Inr (4, [[1], [1], [1], [1]])"
    and "q_chunk_scanner ?q [[0]] [[1]] 4 1 4 = Inr (8, [[1], [1], [1], [1]])"
    and "q_chunk_scanner ?q [[0]] [[1]] 4 1 8 = Inr (12, [[1], [1], [1], [1]])"
    using step [of 0] step [of 4] step [of 8] by simp_all
  then have "scan (q_chunk_scanner ?q [[0]] [[1]] 4 1) 0 3 =
      Inr [[[1], [1], [1], [1]], [[1], [1], [1], [1]], [[1], [1], [1], [1]]]"
    by (rule scan3)
  then show ?thesis
    unfolding rabe_attention_def Let_def len10
    by (simp add: ceil_div_def reshape_def ncols_def)
qed

lemma l2norm_zero_rows:
  "l2norm [[0], [0], [0], [0], [0], [0], [0], [0], [0], [0]] eps =
     [[0], [0], [0], [0], [0], [0], [0], [0], [0], [0]]"
  and l2norm_zero_key: "l2norm [[0]] eps = [[0]]"
  by (simp_all add: l2norm_def)

lemma ten_rows_cosine:
  "rabe_cosine_sim_attention [[0], [0], [0], [0], [0], [0], [0], [0], [0], [0]] [[0]] [[1]] 4 1
     scale eps = Inl ReshapeError"
proof -
  let ?q = "[[0], [0], [0], [0], [0], [0], [0], [0], [0], [0::real]]"
  have step: "cos_q_chunk_scanner ?q [[0]] [[1]] 4 1 scale idx = Inr (idx + 4, [[0], [0], [0], [0]])"
    if "idx = 0 \<or> idx = 4 \<or> idx = 8" for idx
    unfolding cos_q_chunk_scanner_def len10
    using ten_rows_tile [OF that] four_rows_cosine by (simp add: ncols_def)
  have "cos_q_chunk_scanner ?q [[0]] [[1]] 4 1 scale 0 = Inr (4, [[0], [0], [0], [0]])"
    and "cos_q_chunk_scanner ?q [[0]] [[1]] 4 1 scale 4 = Inr (8, [[0], [0], [0], [0]])"
    and "cos_q_chunk_scanner ?q [[0]] [[1]] 4 1 scale 8 = Inr (12, [[0], [0], [0], [0]])"
    using step [of 0] step [of 4] step [of 8] by simp_all
  then have "scan (cos_q_chunk_scanner ?q [[0]] [[1]] 4 1 scale) 0 3 =
      Inr [[[0], [0], [0], [0]], [[0], [0], [0], [0]], [[0], [0], [0], [0]]]"
    by (rule scan3)
  then show ?thesis
    unfolding rabe_cosine_sim_attention_def Let_def l2norm_zero_rows l2norm_zero_key len10
    by (simp add: ceil_div_def reshape_def ncols_def)
qed

lemma sqrt_squares: "sqrt 25 = 5" "sqrt 9 = 3" "sqrt 16 = 4"
  using real_sqrt_abs [of 5] real_sqrt_abs [of 3] real_sqrt_abs [of 4] by simp_all




















section \<open>Rows of the output\<close>

lemma x_over_exp_strict:
  fixes x y :: real
  assumes "0 < x" and "x < y" and "y < 1"
  shows "x / exp x < y / exp y"
proof -
  define d where "d = y - x"
  have d: "0 < d" "d < 1"
    using assms by (simp_all add: d_def)
  have "1 - d \<le> exp (- d)"
    using exp_ge_add_one_self [of "- d"] by simp
  then have "exp d * (1 - d) \<le> exp d * exp (- d)"
    by (intro mult_left_mono) simp_all
  then have bound: "exp d * (1 - d) \<le> 1"
    by (simp add: exp_minus)
  have "x * (exp d * (1 - d)) \<le> x * 1"
    using bound assms(1) by (intro mult_left_mono) simp_all
  then have 1: "(x * exp d) * (1 - d) \<le> x"
    by (simp add: mult.assoc)
  have "y * d < 1 * d"
    using assms(3) d(1) by (intro mult_strict_right_mono)
  then have 2: "x < y * (1 - d)"
    by (simp add: d_def algebra_simps)
  have "(x * exp d) * (1 - d) < y * (1 - d)"
    using 1 2 by simp
  then have "x * exp d < y"
    using d(2) by simp
  then have "x * exp d * exp x < y * exp x"
    by simp
  moreover have "exp d * exp x = exp y"
    by (simp add: d_def exp_add [symmetric])
  ultimately have "x * exp y < y * exp x"
    by (simp add: mult.assoc)
  then show ?thesis
    by (simp add: field_simps)
qed

lemma rabe_attention_row:
  assumes "has_shape ql d q" and "has_shape n d k" and "has_shape n f v"
    and "0 < n" and "0 < kcs" and "min kcs n dvd n"
    and "0 < qcs" and "qcs dvd ql \<or> ql \<le> qcs" and "i < ql"
  shows "\<exists>out. rabe_attention q k v qcs kcs = Inr out \<and>
     out ! i = vecmat (softmax (map (\<lambda>kr. 1 / sqrt (real d) * dot (q ! i) kr) k)) v"
proof -
  have "length q = ql"
    using assms(1) by (simp add: has_shape_def)
  then show ?thesis
    using rabe_attention_eq [OF assms(1-8)] assms(9)
    by (simp add: softmax_attention_def matmul_def)
qed

lemma cosine_two_rows:
  "rabe_cosine_sim_attention [[a], [b]] [[1]] [[1]] 1 1 1 eps =
     Inr (unchunked_cosine_sim 1 (l2norm [[a], [b]] l2norm_eps) (l2norm [[1]] l2norm_eps) [[1]])"
  by (rule rabe_cosine_sim_attention_eq [where ql = 2 and d = 1 and n = 1 and f = 1])
    (simp_all add: has_shape_def)

lemma cosine_row_values:
  "unchunked_cosine_sim 1 [[x], [y]] [[z]] [[1]] = [[x * z / exp (x * z)], [y * z / exp (y * z)]]"
  by (simp add: unchunked_cosine_sim_def matmul_def vecmat_def ncols_def divide_rows_def)


text \<open>On exact tilings the chunk sizes do not change the output of either entry point.\<close>

lemma chunk_size_invariance_on_exact_tilings:
  assumes "has_shape ql d q" and "has_shape n d k" and "has_shape n f v" and "0 < n"
    and "0 < kcs" and "min kcs n dvd n" and "0 < qcs" and "qcs dvd ql \<or> ql \<le> qcs"
    and "0 < kcs'" and "min kcs' n dvd n" and "0 < qcs'" and "qcs' dvd ql \<or> ql \<le> qcs'"
  shows "rabe_attention q k v qcs kcs = rabe_attention q k v qcs' kcs'"
    and "rabe_cosine_sim_attention q k v qcs kcs scale eps =
         rabe_cosine_sim_attention q k v qcs' kcs' scale eps"
  using assms by (simp_all add: rabe_attention_eq rabe_cosine_sim_attention_eq)

section \<open>The claims\<close>

text \<open>
  Claim C1, as amended. For arrays of consistent shapes with at least one key and a positive
  head dimension, positive chunk sizes, a key tile size \<open>min k_chunk_size key_length\<close> that divides the key length, and a
  query chunk size that divides the query length or is at least as large:
  \<^verbatim>\<open>rabe_attention\<close> returns exactly \<open>softmax (Q K\<^sup>T / sqrt head_dim) V\<close>, and
  \<^verbatim>\<open>rabe_cosine_sim_attention\<close> returns what its own formula gives without tiling, on
  the arrays \<^verbatim>\<open>l2norm\<close> produces: the rows of \<open>S V\<close> divided by the row sums of
  \<open>exp S\<close>, where \<open>S = scale * Q K\<^sup>T\<close>.
\<close>

theorem chunked_equals_direct_on_exact_tilings:
  assumes "has_shape ql d q" and "has_shape n d k" and "has_shape n f v"
    and "0 < n" and "0 < d" and "0 < k_chunk_size" and "min k_chunk_size n dvd n"
    and "0 < q_chunk_size" and "q_chunk_size dvd ql \<or> ql \<le> q_chunk_size"
  shows "rabe_attention q k v q_chunk_size k_chunk_size =
       Inr (softmax_attention (1 / sqrt (real d)) q k v) \<and>
     rabe_cosine_sim_attention q k v q_chunk_size k_chunk_size scale eps =
       Inr (unchunked_cosine_sim scale (l2norm q l2norm_eps) (l2norm k l2norm_eps) v)"
  using assms by (simp add: rabe_attention_eq rabe_cosine_sim_attention_eq)

text \<open>
  The amended claim at two queries, two keys and chunk sizes 1: every hypothesis holds, and
  the outputs are the direct ones.
\<close>

theorem chunked_equals_direct_witness:
  "has_shape 2 1 [[1], [2]] \<and> has_shape 2 1 [[0], [0]] \<and> has_shape 2 1 [[1], [3]] \<and>
   min 1 2 dvd (2::nat) \<and> (1::nat) dvd 2 \<and>
   rabe_attention [[1], [2]] [[0], [0]] [[1], [3]] 1 1 = Inr [[2], [2]] \<and>
   rabe_cosine_sim_attention [[1], [2]] [[0], [0]] [[1], [3]] 1 1 16 (1 / 10 ^ 5) = Inr [[0], [0]]"
proof -
  have shapes: "has_shape 2 1 [[1], [2]]" "has_shape 2 1 [[0], [0]]" "has_shape 2 1 [[1], [3]]"
    by (simp_all add: has_shape_def)
  have direct: "softmax_attention (1 / sqrt (real 1)) [[1], [2]] [[0], [0]] [[1], [3]] = [[2], [2]]"
    by (simp add: softmax_attention_def matmul_def vecmat_def softmax_def ncols_def upt2)
  have cos: "unchunked_cosine_sim 16 (l2norm [[1], [2]] l2norm_eps) (l2norm [[0], [0]] l2norm_eps)
      [[1], [3]] = [[0], [0]]"
    by (simp add: unchunked_cosine_sim_def l2norm_def matmul_def vecmat_def ncols_def
        divide_rows_def Let_def)
  show ?thesis
    using chunked_equals_direct_on_exact_tilings [OF shapes, of 1 1 16 "1 / 10 ^ 5"] shapes
      direct
    by (simp add: cos)
qed

text \<open>
  The claim as stated fails. With three keys and key chunk size 2 the output of
  \<^verbatim>\<open>rabe_attention\<close> is \<open>1 / 4\<close> where direct attention gives \<open>1 / 3\<close>; and on exact
  tiles \<^verbatim>\<open>rabe_cosine_sim_attention\<close> returns 0 where softmax attention on the
  row-normalised inputs gives \<open>1 / 3\<close>.
\<close>

theorem chunked_differs_from_direct:
  "rabe_attention [[0]] [[0], [0], [0]] [[1], [0], [0]] 1 2 \<noteq>
     Inr (softmax_attention (1 / sqrt (real 1)) [[0]] [[0], [0], [0]] [[1], [0], [0]]) \<and>
   rabe_cosine_sim_attention [[0]] [[0], [0], [0]] [[1], [0], [0]] 1 1 16 (1 / 10 ^ 5) \<noteq>
     Inr (softmax_attention 16 (row_l2norm l2norm_eps [[0]]) (row_l2norm l2norm_eps [[0], [0], [0]])
            [[1], [0], [0]])"
  using ragged_attention cos_zero [of "1 / 10 ^ 5"]
  by (simp add: direct_uniform direct_normalised)

text \<open>
  Claim C2, at a failing input. \<^verbatim>\<open>l2norm\<close> divides every element by the norm of the
  whole array: for the rows \<open>(3, 0)\<close> and \<open>(0, 4)\<close> that norm is 5, while the rows have
  the norms 3 and 4 that the row-wise normalisation of the claim divides by.
\<close>

theorem l2norm_whole_array:
  "l2norm [[3, 0], [0, 4]] l2norm_eps =
     [[3 / (5 + 1 / 10 ^ 6), 0], [0, 4 / (5 + 1 / 10 ^ 6)]] \<and>
   row_l2norm l2norm_eps [[3, 0], [0, 4]] =
     [[3 / (3 + 1 / 10 ^ 6), 0], [0, 4 / (4 + 1 / 10 ^ 6)]]"
  by (simp add: l2norm_def row_l2norm_def l2norm_eps_def sqrt_squares)

text \<open>
  Claim C3, at a failing input. With ten query rows and query chunk size 4 the scan returns
  three tiles of four rows, twelve rows in all, and \<^verbatim>\<open>reshape\<close> to ten rows fails:
  both entry points raise instead of returning an output.
\<close>

theorem ragged_query_length_fails:
  "rabe_attention [[0], [0], [0], [0], [0], [0], [0], [0], [0], [0]] [[0]] [[1]] 4 1 =
     Inl ReshapeError \<and>
   rabe_cosine_sim_attention [[0], [0], [0], [0], [0], [0], [0], [0], [0], [0]] [[0]] [[1]] 4 1
     16 (1 / 10 ^ 5) = Inl ReshapeError"
  using ten_rows_attention ten_rows_cosine [of 16 "1 / 10 ^ 5"] by simp

text \<open>
  Claim C4, at a failing input. For three keys and tile size 2 the starts are 0 and 2; the slice
  at 2 is clamped to start at 1, so the tiles are the rows 0, 1 and the rows 1, 2: row 1 is read
  twice.
\<close>

theorem ragged_key_tiles_overlap:
  "arange 3 (min 2 3) = Inr [0, 2] \<and>
   dynamic_slice [[10], [20], [30]] (0, 0) (2, 1) = Inr [[10], [20]] \<and>
   dynamic_slice [[10], [20], [30]] (2, 0) (2, 1) = Inr [[20], [30]]"
  by (simp add: arange_def upt2 dynamic_slice_def ncols_def)

text \<open>
  Claim C5. For a query tile and a key/value tile of consistent shapes,
  \<^verbatim>\<open>summarize_chunk\<close> of the cosine-similarity reducer returns, with the scores
  \<open>S = scale * Qt Ktile\<^sup>T\<close>, the value sum \<open>S Vtile\<close> formed from the scores themselves and
  the weight sum formed from the row sums of \<open>exp S\<close>.
\<close>

theorem cosine_value_sum_uses_raw_scores:
  assumes "has_shape tq d Qt" and "has_shape c d Ktile" and "has_shape c f Vtile"
  shows "cos_summarize_chunk scale Qt Ktile Vtile =
     (let scores = map (\<lambda>qr. map (\<lambda>kr. scale * dot qr kr) Ktile) Qt
      in Inr (matmul scores Vtile, map (\<lambda>sr. sum_list (map exp sr)) scores))"
proof -
  have "length Vtile = c"
    using assms(3) by (simp add: has_shape_def)
  then show ?thesis
    using cos_summarize_chunk_eq [OF assms(1,2), of Vtile scale]
    by (simp add: matmul_def comp_def mult.commute)
qed

text \<open>
  At one query and two keys with the scores 1 and 2: the value sum is \<open>1 + 2\<close>, the weight sum
  is \<open>exp 1 + exp 2\<close>.
\<close>

theorem cosine_value_sum_witness:
  "has_shape 1 1 [[1]] \<and> has_shape 2 1 [[1], [2]] \<and> has_shape 2 1 [[1], [1]] \<and>
   cos_summarize_chunk 1 [[1]] [[1], [2]] [[1], [1]] = Inr ([[3]], [exp 1 + exp 2])"
proof -
  have shapes: "has_shape 1 1 [[1]]" "has_shape 2 1 [[1], [2]]" "has_shape 2 1 [[1], [1]]"
    by (simp_all add: has_shape_def)
  show ?thesis
    using cosine_value_sum_uses_raw_scores [OF shapes, of 1] shapes
    by (simp add: matmul_def vecmat_def ncols_def)
qed

text \<open>
  Claim C6, at a failing input. With three keys, key chunk sizes 1 and 2 give different
  outputs: chunk size 2 slices the tiles \<open>[0, 1]\<close> and \<open>[1, 2]\<close>, so the second key is counted
  twice.
\<close>

theorem chunk_size_changes_output:
  "rabe_attention [[0]] [[0], [0], [0]] [[1], [0], [0]] 1 1 = Inr [[1 / 3]] \<and>
   rabe_attention [[0]] [[0], [0], [0]] [[1], [0], [0]] 1 2 = Inr [[1 / 4]]"
proof -
  have "rabe_attention [[0]] [[0], [0], [0]] [[1], [0], [0]] 1 1 =
      Inr (softmax_attention (1 / sqrt (real 1)) [[0]] [[0], [0], [0]] [[1], [0], [0]])"
    by (rule rabe_attention_eq [where ql = 1 and n = 3 and f = 1]) (simp_all add: has_shape_def)
  then show ?thesis
    using ragged_attention by (simp add: direct_uniform)
qed

text \<open>
  Claim C7, at a failing input. The first row of \<open>Q\<close> is \<open>(3)\<close> in both calls; the second row
  is \<open>(0)\<close> in one and \<open>(4)\<close> in the other. \<^verbatim>\<open>l2norm\<close> divides by the norm of the whole
  array, 3 in the first call and 5 in the second, so the first row of the output of
  \<^verbatim>\<open>rabe_cosine_sim_attention\<close> differs.
\<close>

theorem cosine_row_depends_on_other_rows:
  "(let a = 3 / (3 + 1 / 10 ^ 6) * (1 / (1 + 1 / 10 ^ 6));
        b = 3 / (5 + 1 / 10 ^ 6) * (1 / (1 + 1 / 10 ^ 6));
        c = 4 / (5 + 1 / 10 ^ 6) * (1 / (1 + 1 / 10 ^ 6))
    in rabe_cosine_sim_attention [[3], [0]] [[1]] [[1]] 1 1 1 (1 / 10 ^ 5) =
         Inr [[a / exp a], [0]] \<and>
       rabe_cosine_sim_attention [[3], [4]] [[1]] [[1]] 1 1 1 (1 / 10 ^ 5) =
         Inr [[b / exp b], [c / exp c]] \<and>
       a / exp a \<noteq> b / exp b)"
proof -
  define a :: real where "a = 3 / (3 + 1 / 10 ^ 6) * (1 / (1 + 1 / 10 ^ 6))"
  define b :: real where "b = 3 / (5 + 1 / 10 ^ 6) * (1 / (1 + 1 / 10 ^ 6))"
  define c :: real where "c = 4 / (5 + 1 / 10 ^ 6) * (1 / (1 + 1 / 10 ^ 6))"
  have n1: "l2norm [[3], [0]] l2norm_eps = [[3 / (3 + 1 / 10 ^ 6)], [0]]"
    and n2: "l2norm [[3], [4]] l2norm_eps = [[3 / (5 + 1 / 10 ^ 6)], [4 / (5 + 1 / 10 ^ 6)]]"
    and n3: "l2norm [[1]] l2norm_eps = [[1 / (1 + 1 / 10 ^ 6)]]"
    by (simp_all add: l2norm_def l2norm_eps_def sqrt_squares)
  have 1: "rabe_cosine_sim_attention [[3], [0]] [[1]] [[1]] 1 1 1 (1 / 10 ^ 5) =
      Inr [[a / exp a], [0]]"
    unfolding cosine_two_rows n1 n3 cosine_row_values a_def by simp
  have 2: "rabe_cosine_sim_attention [[3], [4]] [[1]] [[1]] 1 1 1 (1 / 10 ^ 5) =
      Inr [[b / exp b], [c / exp c]]"
    unfolding cosine_two_rows n2 n3 cosine_row_values b_def c_def by simp
  have "0 < b" "b < a" "a < 1"
    by (simp_all add: a_def b_def field_simps)
  then have "b / exp b < a / exp a"
    by (rule x_over_exp_strict)
  then have 3: "a / exp a \<noteq> b / exp b"
    by simp
  show ?thesis
    unfolding Let_def a_def [symmetric] b_def [symmetric] c_def [symmetric]
    using 1 2 3 by simp
qed

text \<open>
  Claim C8. For arrays of consistent shapes with at least one key and a positive key chunk
  size, both reducers reach the final division, and every entry of the denominator
  \<^verbatim>\<open>all_weights\<close> they divide by is strictly positive. This holds for every tile size,
  also one that does not divide the key length.
\<close>

theorem division_is_by_positive_weights:
  assumes "has_shape tq d q" and "has_shape n d k" and "has_shape n f v"
    and "0 < n" and "0 < k_chunk_size"
  shows "(\<exists>all_values all_weights.
        query_chunk_sums q k v k_chunk_size = Inr (all_values, all_weights) \<and>
        query_chunk_attention q k v k_chunk_size = Inr (divide_rows all_values all_weights) \<and>
        length all_weights = tq \<and> list_all (\<lambda>w. 0 < w) all_weights) \<and>
     (\<exists>all_values all_weights.
        cos_query_chunk_sums q k v k_chunk_size scale = Inr (all_values, all_weights) \<and>
        query_chunk_cosine_sim_attention q k v k_chunk_size scale =
          Inr (divide_rows all_values all_weights) \<and>
        length all_weights = tq \<and> list_all (\<lambda>w. 0 < w) all_weights)"
proof -
  obtain va wa where a: "query_chunk_sums q k v k_chunk_size = Inr (va, wa)"
      "length wa = tq" "list_all (\<lambda>w. 0 < w) wa"
    using query_chunk_weights_positive [OF assms] by blast
  obtain vb wb where b: "cos_query_chunk_sums q k v k_chunk_size scale = Inr (vb, wb)"
      "length wb = tq" "list_all (\<lambda>w. 0 < w) wb"
    using cos_query_chunk_weights_positive [OF assms] by blast
  show ?thesis
    using a b by (simp add: query_chunk_attention_def query_chunk_cosine_sim_attention_def)
qed

text \<open>At three keys and key chunk size 2, a tile size that does not divide the key length.\<close>

theorem division_is_by_positive_weights_witness:
  "has_shape 1 1 [[0]] \<and> has_shape 3 1 [[0], [0], [0]] \<and> has_shape 3 1 [[1], [0], [0]] \<and>
   query_chunk_sums [[0]] [[0], [0], [0]] [[1], [0], [0]] 2 = Inr ([[1]], [4]) \<and>
   (\<exists>all_values all_weights.
      cos_query_chunk_sums [[0]] [[0], [0], [0]] [[1], [0], [0]] 2 16 = Inr (all_values, all_weights) \<and>
      length all_weights = 1 \<and> list_all (\<lambda>w. 0 < w) all_weights)"
proof -
  have shapes: "has_shape 1 1 [[0]]" "has_shape 3 1 [[0], [0], [0]]" "has_shape 3 1 [[1], [0], [0]]"
    by (simp_all add: has_shape_def)
  show ?thesis
    using division_is_by_positive_weights [OF shapes, of 2 16] shapes ragged_sums
    by auto
qed




text \<open>
  Claim C10. The \<^verbatim>\<open>eps\<close> argument of \<^verbatim>\<open>rabe_cosine_sim_attention\<close> has no
  effect: the call normalises with the default of \<^verbatim>\<open>l2norm\<close>, so two calls that
  differ only in \<^verbatim>\<open>eps\<close> return the same result.
\<close>

theorem eps_is_ignored:
  "rabe_cosine_sim_attention q k v q_chunk_size k_chunk_size scale e1 =
   rabe_cosine_sim_attention q k v q_chunk_size k_chunk_size scale e2"
  by (simp add: rabe_cosine_sim_attention_def)

end
